theory Spec2Isabelle
  imports Complex_Main
begin

section \<open>JavaScript values\<close>

text \<open>
  Strings are lists of code units. A decoded JSON document is a value of type \<open>json\<close>;
  a number is represented by the real value of the double that \<open>JSON.parse\<close> produced
  (JSON has no literal for NaN). The result of reading a property is a \<open>json option\<close>,
  where \<open>None\<close> stands for \<open>undefined\<close>.
\<close>

datatype json =
    JNull
  | JBool bool
  | JNumber real
  | JString string
  | JArray "json list"
  | JObject "(string \<times> json) list"

text \<open>
  A thrown value: an instance of \<open>Error\<close> (or of a subclass such as \<open>TypeError\<close>) with its
  message, or something that is not an \<open>Error\<close>.
\<close>

datatype js_error = Error string | NonError

text \<open>ToBoolean on a decoded JSON value: \<open>null\<close>, \<open>false\<close>, \<open>0\<close> and \<open>""\<close> are falsy.\<close>

fun truthy :: "json \<Rightarrow> bool" where
  "truthy JNull = False"
| "truthy (JBool b) = b"
| "truthy (JNumber x) = (x \<noteq> 0)"
| "truthy (JString s) = (s \<noteq> [])"
| "truthy (JArray xs) = True"
| "truthy (JObject kvs) = True"

fun truthy_opt :: "json option \<Rightarrow> bool" where
  "truthy_opt None = False"
| "truthy_opt (Some v) = truthy v"

text \<open>
  \<open>v.p\<close> for one of the property names this program reads (\<open>model\<close>, \<open>messages\<close>,
  \<open>role\<close>, \<open>content\<close>, \<open>temperature\<close>, \<open>max_tokens\<close>, \<open>stream\<close>, \<open>response\<close>): reading
  a property of \<open>null\<close> throws a TypeError (the message is the one of V8, the engine of the
  Workers runtime); an object yields its own property; numbers, booleans, strings and
  arrays have no property of these names. The keys of a \<open>JObject\<close> are distinct, since
  \<open>JSON.parse\<close> keeps one value for each key.
\<close>

fun get_prop :: "json \<Rightarrow> string \<Rightarrow> js_error + json option" where
  "get_prop JNull p = Inl (Error (''Cannot read properties of null (reading '' @ [CHR 0x27] @ p @ [CHR 0x27] @ '')''))"
| "get_prop (JObject kvs) p = Inr (map_of kvs p)"
| "get_prop v p = Inr None"

text \<open>\<open>n.toString()\<close> and \<open>`${n}`\<close> for a non-negative integer: its decimal digits.\<close>

definition digit_char :: "nat \<Rightarrow> char" where
  "digit_char n = ''0123456789'' ! n"

fun nat_toString :: "nat \<Rightarrow> string" where
  "nat_toString n = (if n < 10 then [digit_char n] else nat_toString (n div 10) @ [digit_char (n mod 10)])"

declare nat_toString.simps [simp del]

definition int_toString :: "int \<Rightarrow> string" where
  "int_toString i = (if i < 0 then CHR ''-'' # nat_toString (nat (- i)) else nat_toString (nat i))"

text \<open>Sequencing of steps that may throw: the first error thrown ends the computation.\<close>

definition bind_err :: "js_error + 'a \<Rightarrow> ('a \<Rightarrow> js_error + 'b) \<Rightarrow> js_error + 'b" where
  "bind_err x f = (case x of Inl e \<Rightarrow> Inl e | Inr v \<Rightarrow> f v)"

section \<open>The platform\<close>

text \<open>
  The functions of the platform that the program calls: \<open>JSON.parse\<close> (\<open>None\<close> when it
  throws), the results of the calls of \<open>crypto.randomUUID()\<close> and of
  \<open>Math.floor(Date.now() / 1000)\<close>, numbered in the order in which they are made, and the
  two conversions between numbers and strings of the language: Number::toString, and
  StringToNumber, where \<open>None\<close> is \<open>NaN\<close>.
\<close>

record platform =
  JSON_parse :: "string \<Rightarrow> json option"
  randomUUID :: "nat \<Rightarrow> string"
  now_seconds :: "nat \<Rightarrow> int"
  Number_toString :: "real \<Rightarrow> string"
  String_toNumber :: "string \<Rightarrow> real option"

text \<open>\<open>Array.prototype.join\<close> with the default separator.\<close>

fun join_comma :: "string list \<Rightarrow> string" where
  "join_comma [] = []"
| "join_comma [s] = s"
| "join_comma (s # t # r) = s @ '','' @ join_comma (t # r)"

text \<open>
  ToString on a decoded JSON value, as a template literal applies it: an array is
  joined, with \<open>null\<close> elements as empty strings, and an object is \<open>[object Object]\<close>.
\<close>

fun ToString :: "platform \<Rightarrow> json \<Rightarrow> string" where
  "ToString P JNull = ''null''"
| "ToString P (JBool b) = (if b then ''true'' else ''false'')"
| "ToString P (JNumber x) = Number_toString P x"
| "ToString P (JString s) = s"
| "ToString P (JArray xs) = join_comma (map (\<lambda>x. if x = JNull then [] else ToString P x) xs)"
| "ToString P (JObject kvs) = ''[object Object]''"

fun ToString_opt :: "platform \<Rightarrow> json option \<Rightarrow> string" where
  "ToString_opt P None = ''undefined''"
| "ToString_opt P (Some v) = ToString P v"

text \<open>ToNumber, as the division applies it to its left operand; \<open>None\<close> is \<open>NaN\<close>.\<close>

fun ToNumber :: "platform \<Rightarrow> json option \<Rightarrow> real option" where
  "ToNumber P None = None"
| "ToNumber P (Some JNull) = Some 0"
| "ToNumber P (Some (JBool b)) = Some (if b then 1 else 0)"
| "ToNumber P (Some (JNumber x)) = Some x"
| "ToNumber P (Some (JString s)) = String_toNumber P s"
| "ToNumber P (Some (JArray xs)) = String_toNumber P (ToString P (JArray xs))"
| "ToNumber P (Some (JObject kvs)) = None"

text \<open>\<open>a + b\<close> on numbers that are integers or \<open>NaN\<close> (\<open>None\<close>).\<close>

fun add_num :: "int option \<Rightarrow> int option \<Rightarrow> int option" where
  "add_num (Some a) (Some b) = Some (a + b)"
| "add_num a b = None"

section \<open>Responses\<close>

record error_envelope =
  err_message :: string
  err_type :: string
  err_param :: "string option"
  err_code :: "string option"

datatype delta = RoleDelta string | ContentDelta json | EmptyDelta

record choice_chunk =
  index :: nat
  delta :: delta
  finish_reason :: "string option"

record chunk =
  chunk_id :: string
  chunk_object :: string
  created :: int
  chunk_model :: "json option"
  choices :: "choice_chunk list"

text \<open>
  What the transcoder enqueues: \<open>`data: ${JSON.stringify(c)}\n\n`\<close> for a chunk \<open>c\<close>, or the
  sentinel \<open>'data: [DONE]\n\n'\<close>.
\<close>

datatype sse = Data chunk | DoneSentinel

datatype stream_end = Closed | Errored js_error

text \<open>The usage numbers are integers or \<open>NaN\<close> (\<open>None\<close>).\<close>

record usage =
  prompt_tokens :: "int option"
  completion_tokens :: "int option"
  total_tokens :: "int option"

record completion =
  completion_id :: string
  completion_object :: string
  completion_created :: int
  completion_model :: "json option"
  message_role :: string
  message_content :: json
  completion_finish_reason :: string
  completion_usage :: usage

datatype body =
    ErrorBody error_envelope
  | CompletionBody completion
  | EventStream "sse list" stream_end
  | NoBody

record response =
  status :: nat
  headers :: "(string \<times> string) list"
  body :: body

text \<open>\<open>Headers.set\<close>: replaces the value of a name that is there, appends otherwise.\<close>

fun headers_set :: "(string \<times> string) list \<Rightarrow> string \<Rightarrow> string \<Rightarrow> (string \<times> string) list" where
  "headers_set [] k v = [(k, v)]"
| "headers_set ((k', v') # hs) k v = (if k' = k then (k, v) # hs else (k', v') # headers_set hs k v)"

text \<open>\<open>createApiResponse\<close> of \<open>types.ts\<close>; the status defaults to 200.\<close>

definition createApiResponse :: "body \<Rightarrow> nat \<Rightarrow> (string \<times> string) list \<Rightarrow> response" where
  "createApiResponse b st hs =
     \<lparr>status = st, headers = headers_set hs ''Content-Type'' ''application/json'', body = b\<rparr>"

section \<open>utils.ts\<close>

text \<open>
  \<open>createErrorResponse(message, type, param?, code?, status = 400)\<close>: \<open>param\<close> and \<open>code\<close>
  are part of the envelope only when truthy.
\<close>

definition createErrorResponse :: "string \<Rightarrow> string \<Rightarrow> string option \<Rightarrow> string option \<Rightarrow> nat \<Rightarrow> response" where
  "createErrorResponse m t p c st =
     \<lparr>status = st,
      headers = headers_set [] ''Content-Type'' ''application/json'',
      body = ErrorBody \<lparr>err_message = m, err_type = t,
                        err_param = (if p = Some [] then None else p),
                        err_code = (if c = Some [] then None else c)\<rparr>\<rparr>"

definition invalid_request :: "string \<Rightarrow> string \<Rightarrow> response" where
  "invalid_request m p = createErrorResponse m ''invalid_request_error'' (Some p) None 400"

text \<open>\<open>['system', 'user', 'assistant'].includes(r)\<close> for a defined \<open>r\<close>.\<close>

fun role_included :: "json \<Rightarrow> bool" where
  "role_included (JString s) = (s \<in> set [''system'', ''user'', ''assistant''])"
| "role_included v = False"

text \<open>
  The body of the \<open>for\<close> loop of \<open>validateRequestBody\<close> for the messages from index \<open>i\<close> on:
  \<open>Inl\<close> when a property read throws, \<open>Inr (Some r)\<close> when the loop returns the error
  response \<open>r\<close>, \<open>Inr None\<close> when it runs to its end.
\<close>

fun validateMessages :: "nat \<Rightarrow> json list \<Rightarrow> js_error + response option" where
  "validateMessages i [] = Inr None"
| "validateMessages i (m # ms) =
     (case get_prop m ''content'' of
        Inl e \<Rightarrow> Inl e
      | Inr originalContent \<Rightarrow>
          (case get_prop m ''role'' of
             Inl e \<Rightarrow> Inl e
           | Inr role \<Rightarrow>
               if \<not> truthy_opt role \<or> \<not> role_included (the role) then
                 Inr (Some (invalid_request
                   (''message at index '' @ nat_toString i @
                    '' has invalid role. Must be one of: system, user, assistant'') ''messages''))
               else if \<not> truthy_opt originalContent then
                 Inr (Some (invalid_request
                   (''message at index '' @ nat_toString i @
                    '' must have non-empty content string'') ''messages''))
               else validateMessages (Suc i) ms))"

text \<open>\<open>x !== undefined && (typeof x !== 'number' || x < lo || x > hi)\<close> and its variants.\<close>

fun bad_temperature :: "json option \<Rightarrow> bool" where
  "bad_temperature None = False"
| "bad_temperature (Some (JNumber x)) = (x < 0 \<or> x > 2)"
| "bad_temperature (Some v) = True"

fun bad_max_tokens :: "json option \<Rightarrow> bool" where
  "bad_max_tokens None = False"
| "bad_max_tokens (Some (JNumber x)) = (x < 1)"
| "bad_max_tokens (Some v) = True"

fun bad_stream :: "json option \<Rightarrow> bool" where
  "bad_stream None = False"
| "bad_stream (Some (JBool b)) = False"
| "bad_stream (Some v) = True"

text \<open>The three checks after the loop, in the order of the source.\<close>

definition validateOptions :: "json \<Rightarrow> js_error + response option" where
  "validateOptions b =
     (case get_prop b ''temperature'' of
        Inl e \<Rightarrow> Inl e
      | Inr t \<Rightarrow>
          if bad_temperature t then
            Inr (Some (invalid_request ''temperature must be a number between 0 and 2'' ''temperature''))
          else
            (case get_prop b ''max_tokens'' of
               Inl e \<Rightarrow> Inl e
             | Inr mt \<Rightarrow>
                 if bad_max_tokens mt then
                   Inr (Some (invalid_request ''max_tokens must be a positive number'' ''max_tokens''))
                 else
                   (case get_prop b ''stream'' of
                      Inl e \<Rightarrow> Inl e
                    | Inr s \<Rightarrow>
                        if bad_stream s then
                          Inr (Some (invalid_request ''stream must be a boolean value'' ''stream''))
                        else Inr None)))"

text \<open>\<open>Array.isArray(v)\<close> and the elements of the array.\<close>

fun as_array :: "json option \<Rightarrow> json list option" where
  "as_array (Some (JArray ms)) = Some ms"
| "as_array v = None"

definition validateRequestBody :: "json \<Rightarrow> js_error + response option" where
  "validateRequestBody b =
     (case get_prop b ''model'' of
        Inl e \<Rightarrow> Inl e
      | Inr model \<Rightarrow>
          if \<not> truthy_opt model then Inr (Some (invalid_request ''model is required'' ''model''))
          else
            (case get_prop b ''messages'' of
               Inl e \<Rightarrow> Inl e
             | Inr messages \<Rightarrow>
                 if as_array messages = None \<or> as_array messages = Some [] then
                   Inr (Some (invalid_request ''messages array is required and cannot be empty'' ''messages''))
                 else
                   (case validateMessages 0 (the (as_array messages)) of
                      Inl e \<Rightarrow> Inl e
                    | Inr (Some r) \<Rightarrow> Inr (Some r)
                    | Inr None \<Rightarrow> validateOptions b)))"

text \<open>
  \<open>text.length\<close>: reading it of \<open>undefined\<close> or \<open>null\<close> throws; a string and an array have
  their length, an object has its own property of that name if any, a number and a
  boolean have none.
\<close>

fun get_length :: "json option \<Rightarrow> js_error + json option" where
  "get_length None =
     Inl (Error (''Cannot read properties of undefined (reading '' @ [CHR 0x27] @ ''length'' @ [CHR 0x27] @ '')''))"
| "get_length (Some JNull) =
     Inl (Error (''Cannot read properties of null (reading '' @ [CHR 0x27] @ ''length'' @ [CHR 0x27] @ '')''))"
| "get_length (Some (JString s)) = Inr (Some (JNumber (real (length s))))"
| "get_length (Some (JArray xs)) = Inr (Some (JNumber (real (length xs))))"
| "get_length (Some (JObject kvs)) = Inr (map_of kvs ''length'')"
| "get_length (Some v) = Inr None"

text \<open>
  \<open>calculateTokens(text)\<close>, that is \<open>Math.ceil(text.length / 4)\<close>, on whatever value it is
  called with: the declared type \<open>string\<close> of its parameter is not checked when it runs.
\<close>

definition calculateTokens :: "platform \<Rightarrow> json option \<Rightarrow> js_error + int option" where
  "calculateTokens P text =
     bind_err (get_length text) (\<lambda>n. Inr (map_option (\<lambda>x. \<lceil>x / 4\<rceil>) (ToNumber P n)))"

section \<open>middleware/security.ts\<close>

definition addSecurityHeaders :: "(string \<times> string) list \<Rightarrow> (string \<times> string) list" where
  "addSecurityHeaders h0 =
     (let h1 = headers_set h0 ''Strict-Transport-Security'' ''max-age=31536000; includeSubDomains'';
          h2 = headers_set h1 ''X-Content-Type-Options'' ''nosniff'';
          h3 = headers_set h2 ''X-Frame-Options'' ''DENY'';
          h4 = headers_set h3 ''X-XSS-Protection'' ''1; mode=block'';
          h5 = headers_set h4 ''Referrer-Policy'' ''strict-origin-when-cross-origin'';
          h6 = headers_set h5 ''Content-Security-Policy''
                 (''default-src '' @ [CHR 0x27] @ ''none'' @ [CHR 0x27] @ ''; frame-ancestors '' @
                  [CHR 0x27] @ ''none'' @ [CHR 0x27])
      in headers_set h6 ''Permissions-Policy''
           ''accelerometer=(), camera=(), geolocation=(), gyroscope=(), magnetometer=(), microphone=(), payment=(), usb=()'')"

definition secured :: "response \<Rightarrow> response" where
  "secured r = r\<lparr>headers := addSecurityHeaders (headers r)\<rparr>"

section \<open>middleware/auth.ts\<close>

text \<open>
  The value of a header is a byte string: every code unit is below 256. On such strings
  \<open>\s\<close> matches tab, line feed, vertical tab, form feed, carriage return, space and the
  no-break space, and \<open>.\<close> matches everything but line feed and carriage return.
\<close>

definition is_space :: "char \<Rightarrow> bool" where
  "is_space c = (c \<in> set [CHR 0x09, CHR 0x0A, CHR 0x0B, CHR 0x0C, CHR 0x0D, CHR 0x20, CHR 0xA0])"

definition is_line_terminator :: "char \<Rightarrow> bool" where
  "is_line_terminator c = (c \<in> set [CHR 0x0A, CHR 0x0D])"

text \<open>Case folding of the \<open>i\<close> flag: only ASCII letters fold onto ASCII letters.\<close>

definition ascii_upper :: "char \<Rightarrow> char" where
  "ascii_upper c =
     (case map_of (zip ''abcdefghijklmnopqrstuvwxyz'' ''ABCDEFGHIJKLMNOPQRSTUVWXYZ'') c of
        Some u \<Rightarrow> u
      | None \<Rightarrow> c)"

text \<open>
  \<open>authHeader.match(/^Bearer\s+(.+)$/i)\<close>: \<open>None\<close> when there is no match, the first group
  otherwise. \<open>\s+\<close> is greedy and gives back one character only when nothing is left for
  the group.
\<close>

definition bearer_match :: "string \<Rightarrow> string option" where
  "bearer_match h =
     (if map ascii_upper (take 6 h) \<noteq> ''BEARER'' then None
      else
        let ws = takeWhile is_space (drop 6 h); t = dropWhile is_space (drop 6 h) in
        if ws = [] then None
        else if t \<noteq> [] then (if \<exists>c \<in> set t. is_line_terminator c then None else Some t)
        else if 2 \<le> length ws \<and> \<not> is_line_terminator (last ws) then Some [last ws]
        else None)"

definition authentication_error :: "string \<Rightarrow> response" where
  "authentication_error m =
     createApiResponse (ErrorBody \<lparr>err_message = m, err_type = ''authentication_error'',
                                   err_param = None, err_code = None\<rparr>) 401 []"

text \<open>
  \<open>verifyApiKey\<close>: \<open>authHeader\<close> is \<open>request.headers.get('Authorization')\<close>, and \<open>keys_get\<close>
  is the outcome of \<open>env.API_KEYS.get("apikey", 'json')\<close>, which the function awaits and
  then ignores.
\<close>

definition verifyApiKey :: "string option \<Rightarrow> js_error + json option \<Rightarrow> response option" where
  "verifyApiKey authHeader keys_get =
     (if authHeader = None \<or> authHeader = Some [] then
        Some (authentication_error
          ''No API key provided. Include as Bearer token in Authorization header'')
      else
        (case bearer_match (the authHeader) of
           None \<Rightarrow>
             Some (authentication_error
               (''Invalid Authorization header format. Use '' @ [CHR 0x22] @ ''Bearer YOUR-API-KEY'' @ [CHR 0x22]))
         | Some apiKey \<Rightarrow>
             (case keys_get of
                Inl e \<Rightarrow>
                  Some (createApiResponse
                    (ErrorBody \<lparr>err_message = ''Error verifying API key'', err_type = ''server_error'',
                                err_param = None, err_code = None\<rparr>) 500 [])
              | Inr keyInfo \<Rightarrow> None)))"

section \<open>middleware/rateLimit.ts\<close>

definition RATE_LIMIT :: int where
  "RATE_LIMIT = 100"

definition WINDOW_SIZE :: int where
  "WINDOW_SIZE = 60 * 60"

record RateLimitData =
  count :: int
  timestamp :: int

record RateLimitInfo =
  remaining :: int
  reset :: int
  total :: int

text \<open>
  The key-value namespace \<open>RATE_LIMIT_KV\<close>. An entry keeps the value that was put (the code
  stores \<open>JSON.stringify(data)\<close> and reads it back with \<open>JSON.parse\<close>), the \<open>expirationTtl\<close> of
  the \<open>put\<close> and the time of the \<open>put\<close> in seconds; \<open>get\<close> finds an entry until
  its time to live has passed. Times are epoch seconds, \<open>Math.floor(Date.now() / 1000)\<close>.
\<close>

record kv_entry =
  kv_value :: RateLimitData
  expirationTtl :: int
  written_at :: int

type_synonym kv = "string \<rightharpoonup> kv_entry"

definition kv_get :: "kv \<Rightarrow> int \<Rightarrow> string \<Rightarrow> RateLimitData option" where
  "kv_get s t k =
     (case s k of
        None \<Rightarrow> None
      | Some e \<Rightarrow> if t < written_at e + expirationTtl e then Some (kv_value e) else None)"

definition kv_put :: "kv \<Rightarrow> int \<Rightarrow> string \<Rightarrow> RateLimitData \<Rightarrow> int \<Rightarrow> kv" where
  "kv_put s t k v ttl = s(k \<mapsto> \<lparr>kv_value = v, expirationTtl = ttl, written_at = t\<rparr>)"

text \<open>\<open>s.startsWith(p)\<close>\<close>

definition startsWith :: "string \<Rightarrow> string \<Rightarrow> bool" where
  "startsWith s p = (take (length p) s = p)"

text \<open>\<open>s.replace(p, '')\<close> for a string pattern \<open>p\<close>: the first occurrence of \<open>p\<close> is removed.\<close>

fun replace_first :: "string \<Rightarrow> string \<Rightarrow> string" where
  "replace_first p [] = []"
| "replace_first p (c # cs) =
     (if startsWith (c # cs) p then drop (length p) (c # cs) else c # replace_first p cs)"

text \<open>\<open>request.headers.get('Authorization')?.replace('Bearer ', '')\<close>\<close>

definition rateLimitApiKey :: "string option \<Rightarrow> string option" where
  "rateLimitApiKey authHeader = map_option (replace_first ''Bearer '') authHeader"

definition rate_limit_error :: "string \<Rightarrow> (string \<times> string) list \<Rightarrow> response" where
  "rate_limit_error m hs =
     createApiResponse (ErrorBody \<lparr>err_message = m, err_type = ''rate_limit_error'',
                                   err_param = None, err_code = None\<rparr>) 429 hs"

text \<open>\<open>`ratelimit:${apiKey}`\<close>\<close>

definition rateLimitKey :: "string \<Rightarrow> string" where
  "rateLimitKey apiKey = ''ratelimit:'' @ apiKey"

text \<open>The response of \<open>checkRateLimit\<close> when the count has reached the limit.\<close>

definition rateLimitExceeded :: "int \<Rightarrow> response" where
  "rateLimitExceeded resetAt =
     rate_limit_error ''Rate limit exceeded''
       [(''X-RateLimit-Limit'', int_toString RATE_LIMIT),
        (''X-RateLimit-Remaining'', ''0''),
        (''X-RateLimit-Reset'', int_toString resetAt)]"

text \<open>
  \<open>checkRateLimit\<close> at the time \<open>now\<close> on the store \<open>s\<close>: the result and the store
  afterwards. The store answers every \<open>get\<close> and \<open>put\<close>, so the \<open>catch\<close> of the source,
  which turns a failure of the store into a 500 response, has no branch here.
\<close>

definition checkRateLimit :: "string option \<Rightarrow> int \<Rightarrow> kv \<Rightarrow> (response + RateLimitInfo) \<times> kv" where
  "checkRateLimit authHeader now s =
     (let apiKey = rateLimitApiKey authHeader in
      if apiKey = None \<or> apiKey = Some [] then
        (Inl (rate_limit_error ''Missing API key for rate limiting'' []), s)
      else
        let rateLimitKey = rateLimitKey (the apiKey);
            currentData = kv_get s now rateLimitKey;
            data = (case currentData of
                      Some d \<Rightarrow>
                        if now - timestamp d \<ge> WINDOW_SIZE then \<lparr>count = 0, timestamp = now\<rparr> else d
                    | None \<Rightarrow> \<lparr>count = 0, timestamp = now\<rparr>)
        in
        if count data \<ge> RATE_LIMIT then
          (Inl (rateLimitExceeded (timestamp data + WINDOW_SIZE)), s)
        else
          let data' = data\<lparr>count := count data + 1\<rparr> in
          (Inr \<lparr>remaining = RATE_LIMIT - count data',
                reset = timestamp data' + WINDOW_SIZE,
                total = RATE_LIMIT\<rparr>,
           kv_put s now rateLimitKey data' WINDOW_SIZE))"


section \<open>services/aiService.ts\<close>

text \<open>
  An entry of the catalog \<open>models.json\<close>, which is a parameter of the model: its id and
  whether \<open>capabilities?.chat\<close> is truthy.
\<close>

record AIModel =
  model_id :: string
  chat :: bool

text \<open>
  What \<open>ai.run\<close> is called with, and what it gives: a falsy value (\<open>AiAbsent\<close>), a truthy
  value that is not a stream, with its \<open>response\<close> property, or a byte stream. A stream
  is the list of the texts its chunks decode to (each chunk is decoded on its own, by a
  new \<open>TextDecoder\<close>), ended by \<open>done\<close> (\<open>None\<close>) or by a failing read. The chunks are taken
  in the order in which they are enqueued and read; a stream that is errored while its
  reader is behind hands over fewer chunks, which is a shorter list here.
\<close>

record run_args =
  run_messages :: "json list"
  run_stream :: bool
  run_max_tokens :: json
  run_temperature :: json

datatype ai_result =
    AiAbsent
  | AiObject "json option"
  | AiStream "string list" "js_error option"

datatype generated =
    Completed json string
  | Streamed "string list" "js_error option"

text \<open>\<open>x || d\<close>\<close>

definition or_default :: "json option \<Rightarrow> json \<Rightarrow> json" where
  "or_default x d = (if truthy_opt x then the x else d)"

definition as_Error :: "js_error \<Rightarrow> js_error" where
  "as_Error e = (case e of Error m \<Rightarrow> Error m | NonError \<Rightarrow> Error ''AI service error'')"

text \<open>
  The callback of \<open>params.messages.filter\<close> on each message in turn: a message is kept when
  \<open>msg.content && msg.content !== ''\<close>.
\<close>

fun filterValid :: "json list \<Rightarrow> js_error + json list" where
  "filterValid [] = Inr []"
| "filterValid (msg # rest) =
     bind_err (get_prop msg ''content'') (\<lambda>c.
     bind_err (filterValid rest) (\<lambda>vs.
       Inr (if truthy_opt c \<and> c \<noteq> Some (JString []) then msg # vs else vs)))"

text \<open>\<open>params.messages.filter(...)\<close> on the value of \<open>params.messages\<close>.\<close>

fun validMessages_of :: "json option \<Rightarrow> js_error + json list" where
  "validMessages_of (Some (JArray xs)) = filterValid xs"
| "validMessages_of None =
     Inl (Error (''Cannot read properties of undefined (reading '' @ [CHR 0x27] @ ''filter'' @ [CHR 0x27] @ '')''))"
| "validMessages_of (Some JNull) =
     Inl (Error (''Cannot read properties of null (reading '' @ [CHR 0x27] @ ''filter'' @ [CHR 0x27] @ '')''))"
| "validMessages_of (Some v) = Inl (Error ''params.messages.filter is not a function'')"

text \<open>
  \<open>generateChatCompletion\<close> over the catalog \<open>ms\<close> and the upstream \<open>ai_run\<close>, on the values
  of \<open>params.messages\<close>, \<open>params.model\<close>, \<open>params.temperature\<close> and \<open>params.max_tokens\<close>
  as they are (their declared types are not checked when it runs): \<open>Inl\<close> is the error it
  throws. With \<open>stream\<close> it returns the stream that its \<open>start\<close> callback fills: the
  upstream chunks in order, or an errored stream when \<open>ai.run\<close> throws or does not give
  a stream.
\<close>

definition generateChatCompletion ::
  "platform \<Rightarrow> AIModel list \<Rightarrow> (string \<Rightarrow> run_args \<Rightarrow> js_error + ai_result) \<Rightarrow>
   json option \<Rightarrow> json option \<Rightarrow> json option \<Rightarrow> json option \<Rightarrow> bool \<Rightarrow> js_error + generated" where
  "generateChatCompletion P ms ai_run msgs mdl temp maxtok strm =
     (case find (\<lambda>m. mdl = Some (JString (model_id m))) ms of
        None \<Rightarrow> Inl (Error (''Model '' @ ToString_opt P mdl @ '' not found''))
      | Some modelInfo \<Rightarrow>
          if \<not> chat modelInfo then
            Inl (Error (''Model '' @ ToString_opt P mdl @ '' does not support chat completions''))
          else
            (case validMessages_of msgs of
               Inl e \<Rightarrow> Inl (as_Error e)
             | Inr validMessages \<Rightarrow>
                 if length validMessages = 0 then Inl (Error ''No valid messages with content found'')
                 else
                   let args = \<lparr>run_messages = validMessages, run_stream = strm,
                               run_max_tokens = or_default maxtok (JNumber 256),
                               run_temperature = or_default temp (JNumber (7 / 10))\<rparr>
                   in
                   if strm then
                     (case ai_run (model_id modelInfo) args of
                        Inl e \<Rightarrow> Inr (Streamed [] (Some e))
                      | Inr (AiStream texts e) \<Rightarrow> Inr (Streamed texts e)
                      | Inr _ \<Rightarrow>
                          Inr (Streamed [] (Some (Error ''Expected streaming response from AI service''))))
                   else
                     (case ai_run (model_id modelInfo) args of
                        Inl e \<Rightarrow> Inl (as_Error e)
                      | Inr (AiObject r) \<Rightarrow>
                          if truthy_opt r then Inr (Completed (the r) ''stop'')
                          else Inl (Error ''Invalid response from AI service'')
                      | Inr _ \<Rightarrow> Inl (Error ''Invalid response from AI service''))))"

section \<open>controllers/chatController.ts\<close>

text \<open>
  The variables of \<open>start\<close> other than the buffer: \<open>sentRole\<close>, what has been enqueued on
  the controller, and how many identifiers and clock readings have been drawn. The
  consumer of the output stream does not cancel it, so that \<open>controller.enqueue\<close> does not
  throw.
\<close>

record tstate =
  sentRole :: bool
  enqueued :: "sse list"
  uuids :: nat
  clocks :: nat

definition mk_chunk :: "string \<Rightarrow> int \<Rightarrow> json option \<Rightarrow> delta \<Rightarrow> string option \<Rightarrow> chunk" where
  "mk_chunk i t mdl d fr =
     \<lparr>chunk_id = i, chunk_object = ''chat.completion.chunk'', created = t, chunk_model = mdl,
      choices = [\<lparr>index = 0, delta = d, finish_reason = fr\<rparr>]\<rparr>"

definition enqueue :: "sse \<Rightarrow> tstate \<Rightarrow> tstate" where
  "enqueue e st = st\<lparr>enqueued := enqueued st @ [e]\<rparr>"

text \<open>\<open>chunk.startsWith('data: ') ? chunk.slice(6) : chunk\<close>\<close>

definition jsonStr_of :: "string \<Rightarrow> string" where
  "jsonStr_of chunk = (if startsWith chunk ''data: '' then drop 6 chunk else chunk)"

text \<open>
  \<open>processChunk\<close>. Its \<open>try\<close> block catches the SyntaxError of \<open>JSON.parse\<close> and the
  TypeError of \<open>data.response\<close> on \<open>null\<close>; the latter is thrown after the role chunk.
\<close>

definition processChunk :: "platform \<Rightarrow> json option \<Rightarrow> tstate \<Rightarrow> string \<Rightarrow> tstate" where
  "processChunk P mdl st chunk =
     (let jsonStr = jsonStr_of chunk in
      if jsonStr = [] \<or> jsonStr = ''[DONE]'' then st
      else
        (case JSON_parse P jsonStr of
           None \<Rightarrow> st
         | Some data \<Rightarrow>
             let timestamp = now_seconds P (clocks st);
                 chunkId = ''chatcmpl-'' @ randomUUID P (uuids st);
                 st1 = st\<lparr>clocks := Suc (clocks st), uuids := Suc (uuids st)\<rparr>;
                 st2 = (if \<not> sentRole st1 then
                          (enqueue (Data (mk_chunk chunkId timestamp mdl (RoleDelta ''assistant'') None)) st1)
                            \<lparr>sentRole := True\<rparr>
                        else st1)
             in
             (case get_prop data ''response'' of
                Inl e \<Rightarrow> st2
              | Inr r \<Rightarrow>
                  if truthy_opt r then
                    enqueue (Data (mk_chunk chunkId timestamp mdl (ContentDelta (the r)) None)) st2
                  else st2)))"

definition newline :: char where
  "newline = CHR 0x0A"

text \<open>\<open>buffer.indexOf('\n')\<close> when the buffer includes a line feed.\<close>

definition indexOf_newline :: "string \<Rightarrow> nat" where
  "indexOf_newline buffer = length (takeWhile (\<lambda>c. c \<noteq> newline) buffer)"

text \<open>The inner \<open>while (buffer.includes('\n'))\<close> loop: the state and the buffer it leaves.\<close>

function splitLines :: "platform \<Rightarrow> json option \<Rightarrow> tstate \<Rightarrow> string \<Rightarrow> tstate \<times> string" where
  "splitLines P mdl st buffer =
     (if newline \<in> set buffer then
        let newlineIndex = indexOf_newline buffer;
            line = take newlineIndex buffer;
            buffer' = drop (newlineIndex + 1) buffer
        in splitLines P mdl (if line \<noteq> [] then processChunk P mdl st line else st) buffer'
      else (st, buffer))"
  by pat_completeness auto
termination
  by (relation "measure (\<lambda>(P, mdl, st, buffer). length buffer)")
     (auto dest: length_pos_if_in_set)

declare splitLines.simps [simp del]

text \<open>What \<open>start\<close> does when \<open>reader.read()\<close> reports \<open>done\<close>.\<close>

definition finishStream :: "platform \<Rightarrow> json option \<Rightarrow> tstate \<Rightarrow> string \<Rightarrow> body" where
  "finishStream P mdl st buffer =
     (let st1 = (if buffer \<noteq> [] then processChunk P mdl st buffer else st);
          doneEvent = mk_chunk (''chatcmpl-'' @ randomUUID P (uuids st1)) (now_seconds P (clocks st1))
                        mdl EmptyDelta (Some ''stop'')
      in EventStream (enqueued st1 @ [Data doneEvent, DoneSentinel]) Closed)"

text \<open>
  The outer \<open>while (true)\<close> loop over the reads of the upstream stream: the texts of its
  chunks, then \<open>done\<close> (\<open>None\<close>) or a read that fails, which the \<open>catch\<close> of \<open>start\<close>
  hands to \<open>controller.error\<close>.
\<close>

fun readLoop :: "platform \<Rightarrow> json option \<Rightarrow> tstate \<Rightarrow> string \<Rightarrow> string list \<Rightarrow> js_error option \<Rightarrow> body" where
  "readLoop P mdl st buffer [] None = finishStream P mdl st buffer"
| "readLoop P mdl st buffer [] (Some e) = EventStream (enqueued st) (Errored e)"
| "readLoop P mdl st buffer (text # texts) e =
     (case splitLines P mdl st (buffer @ text) of
        (st', buffer') \<Rightarrow> readLoop P mdl st' buffer' texts e)"

text \<open>The state in which \<open>start\<close> begins: \<open>buffer = ''\<close> and \<open>sentRole = false\<close>.\<close>

definition start_state :: tstate where
  "start_state = \<lparr>sentRole = False, enqueued = [], uuids = 0, clocks = 0\<rparr>"

definition transformedStream :: "platform \<Rightarrow> json option \<Rightarrow> string list \<Rightarrow> js_error option \<Rightarrow> body" where
  "transformedStream P mdl texts e = readLoop P mdl start_state [] texts e"

definition rateLimitHeaders :: "RateLimitInfo option \<Rightarrow> (string \<times> string) list" where
  "rateLimitHeaders info =
     (case info of
        None \<Rightarrow> []
      | Some i \<Rightarrow> [(''X-RateLimit-Limit'', int_toString (total i)),
                   (''X-RateLimit-Remaining'', int_toString (remaining i)),
                   (''X-RateLimit-Reset'', int_toString (reset i))])"

text \<open>The \<open>catch\<close> of \<open>createChatCompletion\<close>.\<close>

definition server_error :: "js_error \<Rightarrow> response" where
  "server_error e =
     secured \<lparr>status = 500, headers = [(''Content-Type'', ''application/json'')],
              body = ErrorBody \<lparr>err_message = (case e of Error m \<Rightarrow> m | NonError \<Rightarrow> ''An error occurred''),
                                err_type = ''server_error'', err_param = None, err_code = None\<rparr>\<rparr>"

text \<open>
  \<open>body.messages.reduce((acc, msg) => acc + calculateTokens(msg.content), 0)\<close>: the
  callback on each message in turn, then \<open>reduce\<close> on the value of \<open>body.messages\<close>.
\<close>

fun reduceTokens :: "platform \<Rightarrow> int option \<Rightarrow> json list \<Rightarrow> js_error + int option" where
  "reduceTokens P acc [] = Inr acc"
| "reduceTokens P acc (msg # rest) =
     bind_err (get_prop msg ''content'') (\<lambda>c.
     bind_err (calculateTokens P c) (\<lambda>t.
       reduceTokens P (add_num acc t) rest))"

fun promptTokens_of :: "platform \<Rightarrow> json option \<Rightarrow> js_error + int option" where
  "promptTokens_of P (Some (JArray xs)) = reduceTokens P (Some 0) xs"
| "promptTokens_of P None =
     Inl (Error (''Cannot read properties of undefined (reading '' @ [CHR 0x27] @ ''reduce'' @ [CHR 0x27] @ '')''))"
| "promptTokens_of P (Some JNull) =
     Inl (Error (''Cannot read properties of null (reading '' @ [CHR 0x27] @ ''reduce'' @ [CHR 0x27] @ '')''))"
| "promptTokens_of P (Some v) = Inl (Error ''body.messages.reduce is not a function'')"

text \<open>
  The \<open>try\<close> block of \<open>createChatCompletion\<close> on the decoded body \<open>b\<close>, which is any JSON
  value (the failure of \<open>request.json()\<close> itself is not part of the model): \<open>Inl\<close> is the
  error it throws, \<open>Inr\<close> the response it returns.
\<close>

definition chatCompletionTry ::
  "platform \<Rightarrow> AIModel list \<Rightarrow> (string \<Rightarrow> run_args \<Rightarrow> js_error + ai_result) \<Rightarrow>
   json \<Rightarrow> RateLimitInfo option \<Rightarrow> js_error + response" where
  "chatCompletionTry P ms ai_run b rateLimitInfo =
     bind_err (validateRequestBody b) (\<lambda>validationError.
       case validationError of
         Some r \<Rightarrow> Inr (secured r)
       | None \<Rightarrow>
           bind_err (get_prop b ''stream'') (\<lambda>strm.
           bind_err (get_prop b ''messages'') (\<lambda>msgs.
           bind_err (get_prop b ''model'') (\<lambda>mdl.
           bind_err (get_prop b ''temperature'') (\<lambda>temp.
           bind_err (get_prop b ''max_tokens'') (\<lambda>maxtok.
             if truthy_opt strm then
               bind_err (generateChatCompletion P ms ai_run msgs mdl temp maxtok True) (\<lambda>g.
                 case g of
                   Completed c f \<Rightarrow> Inl (Error ''Expected streaming response'')
                 | Streamed texts e \<Rightarrow>
                     Inr (secured
                       \<lparr>status = 200,
                        headers = [(''Content-Type'', ''text/event-stream''),
                                   (''Cache-Control'', ''no-cache''),
                                   (''Connection'', ''keep-alive'')] @ rateLimitHeaders rateLimitInfo,
                        body = transformedStream P mdl texts e\<rparr>))
             else
               bind_err (generateChatCompletion P ms ai_run msgs mdl temp maxtok False) (\<lambda>g.
                 case g of
                   Streamed texts e \<Rightarrow> Inl (Error ''Unexpected streaming response'')
                 | Completed c finishReason \<Rightarrow>
                     bind_err (promptTokens_of P msgs) (\<lambda>promptTokens.
                     bind_err (calculateTokens P (Some c)) (\<lambda>completionTokens.
                       Inr (secured
                         \<lparr>status = 200,
                          headers = [(''Content-Type'', ''application/json'')] @ rateLimitHeaders rateLimitInfo,
                          body = CompletionBody
                            \<lparr>completion_id = ''chatcmpl-'' @ randomUUID P 0,
                             completion_object = ''chat.completion'',
                             completion_created = now_seconds P 0,
                             completion_model = mdl,
                             message_role = ''assistant'',
                             message_content = c,
                             completion_finish_reason = finishReason,
                             completion_usage =
                               \<lparr>prompt_tokens = promptTokens,
                                completion_tokens = completionTokens,
                                total_tokens = add_num promptTokens completionTokens\<rparr>\<rparr>\<rparr>))))))))))"

text \<open>\<open>createChatCompletion\<close>: what the \<open>try\<close> block returns, or the response of the \<open>catch\<close>.\<close>

definition createChatCompletion ::
  "platform \<Rightarrow> AIModel list \<Rightarrow> (string \<Rightarrow> run_args \<Rightarrow> js_error + ai_result) \<Rightarrow>
   json \<Rightarrow> RateLimitInfo option \<Rightarrow> response" where
  "createChatCompletion P ms ai_run b rateLimitInfo =
     (case chatCompletionTry P ms ai_run b rateLimitInfo of
        Inl e \<Rightarrow> server_error e
      | Inr r \<Rightarrow> r)"

section \<open>Concrete inputs\<close>

text \<open>
  A decoder for the upstream events \<open>null\<close>, \<open>{}\<close> and \<open>{"response":"text"}\<close>, where the
  text has no quote, no backslash and no control character; \<open>JSON.parse\<close> gives the same
  value wherever this decoder gives one. It instantiates the \<open>JSON.parse\<close> parameter in
  the examples below.
\<close>

definition parse_event :: "string \<Rightarrow> json option" where
  \<open>parse_event s =
     (if s = ''null'' then Some JNull
      else if s = ''{}'' then Some (JObject [])
      else
        let inner = take (length s - 15) (drop 13 s) in
        if 15 \<le> length s \<and> take 13 s = ''{"response":"'' \<and> drop (length s - 2) s = ''"}'' \<and>
           (\<forall>c \<in> set inner. c \<noteq> CHR 0x22 \<and> c \<noteq> CHR 0x5C \<and> (32::nat) \<le> of_char c)
        then Some (JObject [(''response'', JString inner)])
        else None)\<close>

text \<open>
  A platform whose k-th identifier is the decimal numeral of k and whose clock ticks.
  Its conversions between numbers and strings are right on the integers below ten,
  which is all that the examples convert.
\<close>

definition demo_platform :: platform where
  "demo_platform =
     \<lparr>JSON_parse = parse_event, randomUUID = nat_toString, now_seconds = (\<lambda>k. 1700000000 + int k),
      Number_toString = (\<lambda>x. nat_toString (nat \<lfloor>x\<rfloor>)),
      String_toNumber = (\<lambda>s. if length s = 1 \<and> hd s \<in> set ''0123456789''
                               then Some (real (length (takeWhile (\<lambda>c. c \<noteq> hd s) ''0123456789'')))
                               else None)\<rparr>"

definition demo_models :: "AIModel list" where
  "demo_models = [\<lparr>model_id = ''llama'', chat = True\<rparr>, \<lparr>model_id = ''bge'', chat = False\<rparr>]"

text \<open>
  An upstream that answers every call without \<open>stream\<close> with a text of 80 characters,
  and every call with \<open>stream\<close> with \<open>null\<close>.
\<close>

definition demo_run :: "string \<Rightarrow> run_args \<Rightarrow> js_error + ai_result" where
  "demo_run m args =
     (if run_stream args then Inr AiAbsent else Inr (AiObject (Some (JString (replicate 80 CHR ''x'')))))"


definition message :: "string \<Rightarrow> json \<Rightarrow> json" where
  "message r c = JObject [(''role'', JString r), (''content'', c)]"

definition request_one_message :: json where
  "request_one_message =
     JObject [(''model'', JString ''llama''),
              (''messages'', JArray [message ''user'' (JString (replicate 40 CHR ''a''))])]"

definition request_two_messages :: json where
  "request_two_messages =
     JObject [(''model'', JString ''llama''),
              (''messages'', JArray [message ''system'' (JString ''a''),
                                     message ''user'' (JString (replicate 39 CHR ''b''))])]"

definition request_number_content :: json where
  "request_number_content =
     JObject [(''model'', JString ''llama''), (''messages'', JArray [message ''user'' (JNumber 5)])]"




definition usage_of :: "response \<Rightarrow> usage option" where
  "usage_of r = (case body r of CompletionBody c \<Rightarrow> Some (completion_usage c) | _ \<Rightarrow> None)"

text \<open>A store in which the credential \<open>k\<close> has used up its window that began at time 0.\<close>

definition full_store :: kv where
  "full_store =
     [rateLimitKey ''k'' \<mapsto> \<lparr>kv_value = \<lparr>count = 100, timestamp = 0\<rparr>, expirationTtl = 3600, written_at = 5\<rparr>]"

section \<open>Notions for the statements about the transcoder\<close>

text \<open>
  The lines of the upstream text: the segments between line feeds, the last one being
  what follows the last line feed (\<open>text.split('\n')\<close>).
\<close>

function stream_lines :: "string \<Rightarrow> string list" where
  "stream_lines text =
     (if newline \<in> set text then
        take (indexOf_newline text) text # stream_lines (drop (indexOf_newline text + 1) text)
      else [text])"
  by pat_completeness auto
termination
  by (relation "measure length") (auto dest: length_pos_if_in_set)

declare stream_lines.simps [simp del]

text \<open>
  The lines that the transcoder gets to process: all of them when the upstream stream
  ends, all but the unfinished last one when a read fails.
\<close>

definition processed_lines :: "js_error option \<Rightarrow> string \<Rightarrow> string list" where
  "processed_lines e text = (case e of None \<Rightarrow> stream_lines text | Some err \<Rightarrow> butlast (stream_lines text))"

text \<open>
  A line decodes when \<open>processChunk\<close> gets an event out of it: its payload is not
  empty, is not the \<open>[DONE]\<close> marker, and \<open>JSON.parse\<close> succeeds on it.
\<close>

definition decodes :: "platform \<Rightarrow> string \<Rightarrow> bool" where
  "decodes P l =
     (jsonStr_of l \<noteq> [] \<and> jsonStr_of l \<noteq> ''[DONE]'' \<and> JSON_parse P (jsonStr_of l) \<noteq> None)"

text \<open>
  The role-priming chunk: one choice, whose delta is the role \<open>assistant\<close> (a delta has
  either a role or a content) and whose \<open>finish_reason\<close> is \<open>null\<close>.
\<close>

fun role_chunk :: "sse \<Rightarrow> bool" where
  "role_chunk (Data c) =
     (choices c = [\<lparr>index = 0, delta = RoleDelta ''assistant'', finish_reason = None\<rparr>])"
| "role_chunk DoneSentinel = False"

text \<open>A chunk that is not the last one: its \<open>finish_reason\<close> is \<open>null\<close>.\<close>

fun open_chunk :: "sse \<Rightarrow> bool" where
  "open_chunk (Data c) = list_all (\<lambda>ch. finish_reason ch = None) (choices c)"
| "open_chunk DoneSentinel = False"

fun event_ids :: "sse list \<Rightarrow> string list" where
  "event_ids [] = []"
| "event_ids (Data c # evs) = chunk_id c # event_ids evs"
| "event_ids (DoneSentinel # evs) = event_ids evs"

text \<open>
  The state of \<open>start\<close> when the upstream text has been read to its end and the rest of
  the buffer has been flushed, before the terminal chunk is enqueued.
\<close>

definition flushed :: "platform \<Rightarrow> json option \<Rightarrow> string \<Rightarrow> tstate" where
  "flushed P mdl text =
     (case splitLines P mdl start_state text of
        (st, buffer) \<Rightarrow> if buffer \<noteq> [] then processChunk P mdl st buffer else st)"

fun events_of :: "body \<Rightarrow> sse list" where
  "events_of (EventStream evs e) = evs"
| "events_of b = []"

text \<open>
  Two invariants of the state of \<open>start\<close>: once \<open>sentRole\<close> is set, the role chunk is
  the first thing enqueued and the only role chunk; every identifier enqueued has been
  drawn, and the chunks other than the role chunk have different identifiers.
\<close>

definition role_first :: "tstate \<Rightarrow> bool" where
  "role_first st =
     (if sentRole st then \<exists>r rest. enqueued st = r # rest \<and> role_chunk r \<and> \<not> list_ex role_chunk rest
      else enqueued st = [])"

definition fresh_ids :: "platform \<Rightarrow> tstate \<Rightarrow> bool" where
  "fresh_ids P st =
     ((\<forall>i \<in> set (event_ids (enqueued st)). \<exists>k < uuids st. i = ''chatcmpl-'' @ randomUUID P k) \<and>
      distinct (event_ids (filter (\<lambda>ev. \<not> role_chunk ev) (enqueued st))))"


section \<open>Decimal numerals\<close>

lemma nat_toString_small:
  "nat_toString 0 = ''0''" "nat_toString 1 = ''1''" "nat_toString (Suc 0) = ''1''" "nat_toString 2 = ''2''"
  by (simp_all add: nat_toString.simps digit_char_def)

section \<open>Shapes of the responses\<close>

lemma validateMessages_ErrorBody:
  "validateMessages i ms = Inr (Some r) \<Longrightarrow> \<exists>e. body r = ErrorBody e"
  by (induction ms arbitrary: i)
     (auto simp: invalid_request_def createErrorResponse_def split: sum.splits if_splits)

lemma validateRequestBody_ErrorBody:
  "validateRequestBody j = Inr (Some r) \<Longrightarrow> \<exists>e. body r = ErrorBody e"
  by (auto simp: validateRequestBody_def validateOptions_def invalid_request_def createErrorResponse_def
           dest: validateMessages_ErrorBody split: sum.splits if_splits option.splits)

lemma readLoop_EventStream: "\<exists>evs e'. readLoop P mdl st buf texts e = EventStream evs e'"
proof (induction texts arbitrary: st buf)
  case Nil
  then show ?case by (cases e) (auto simp: finishStream_def Let_def)
next
  case (Cons t ts)
  then show ?case by (auto split: prod.splits)
qed

lemma transformedStream_not_completion: "transformedStream P mdl texts e \<noteq> CompletionBody c"
  using readLoop_EventStream[of P mdl start_state "[]" texts e]
  by (auto simp: transformedStream_def)

section \<open>The rate limiter\<close>








text \<open>
  Claim C10. A call of the rate limiter that answers with an error response, as it does
  when the credential is missing and when the count of the window has reached the
  limit, leaves the store as it was.
\<close>

theorem C10_no_write_on_denial:
  "(fst (checkRateLimit h now s) = Inl r \<longrightarrow> snd (checkRateLimit h now s) = s) \<and>
   (rateLimitApiKey h = None \<or> rateLimitApiKey h = Some [] \<longrightarrow>
      (\<exists>r'. checkRateLimit h now s = (Inl r', s) \<and> status r' = 429)) \<and>
   ((\<exists>k d. rateLimitApiKey h = Some k \<and> k \<noteq> [] \<and> kv_get s now (rateLimitKey k) = Some d \<and>
           now - timestamp d < WINDOW_SIZE \<and> RATE_LIMIT \<le> count d) \<longrightarrow>
      (\<exists>r'. checkRateLimit h now s = (Inl r', s) \<and> status r' = 429))"
  by (auto simp: checkRateLimit_def Let_def rateLimitExceeded_def rate_limit_error_def createApiResponse_def
           split: option.splits if_splits)

text \<open>
  The credential \<open>k\<close> has used its 100 requests of the window that began at time 0; its
  request at time 10 is denied and the store is the same afterwards.
\<close>

theorem C10_no_write_on_denial_witness:
  "isl (fst (checkRateLimit (Some ''Bearer k'') 10 full_store)) \<and>
   snd (checkRateLimit (Some ''Bearer k'') 10 full_store) = full_store"
proof -
  have k: "rateLimitApiKey (Some ''Bearer k'') = Some ''k''"
    by (simp add: rateLimitApiKey_def startsWith_def)
  have d: "\<exists>k d. rateLimitApiKey (Some ''Bearer k'') = Some k \<and> k \<noteq> [] \<and>
             kv_get full_store 10 (rateLimitKey k) = Some d \<and>
             10 - timestamp d < WINDOW_SIZE \<and> RATE_LIMIT \<le> count d"
    unfolding k by (simp add: kv_get_def full_store_def WINDOW_SIZE_def RATE_LIMIT_def)
  from C10_no_write_on_denial[of "Some ''Bearer k''" 10 full_store] d
  obtain r' where "checkRateLimit (Some ''Bearer k'') 10 full_store = (Inl r', full_store)"
    by blast
  then show ?thesis by simp
qed

section \<open>The two readings of the Authorization header\<close>

text \<open>
  The matcher accepts exactly the headers of the language of the pattern: the letters of
  \<open>Bearer\<close> in any case, then white space, then at least one character and no line
  terminator up to the end.
\<close>

lemma takeWhile_dropWhile_space:
  "\<forall>c \<in> set ws. is_space c \<Longrightarrow>
   takeWhile is_space (ws @ t) = ws @ takeWhile is_space t \<and>
   dropWhile is_space (ws @ t) = dropWhile is_space t"
  by (induction ws) auto

lemma bearer_match_sound:
  assumes "bearer_match h = Some t"
  shows "\<exists>p ws. h = p @ ws @ t \<and> map ascii_upper p = ''BEARER'' \<and> ws \<noteq> [] \<and>
                (\<forall>c \<in> set ws. is_space c) \<and> t \<noteq> [] \<and> (\<forall>c \<in> set t. \<not> is_line_terminator c)"
proof -
  let ?r = "drop 6 h"
  let ?ws = "takeWhile is_space ?r" and ?t = "dropWhile is_space ?r"
  from assms have p: "map ascii_upper (take 6 h) = ''BEARER''" and ws: "?ws \<noteq> []"
    by (auto simp: bearer_match_def Let_def split: if_splits)
  have h: "h = take 6 h @ ?ws @ ?t" by simp
  have sp: "\<forall>c \<in> set ?ws. is_space c" by (auto dest: set_takeWhileD)
  show ?thesis
  proof (cases "?t = []")
    case False
    with assms ws have "t = ?t" "\<forall>c \<in> set ?t. \<not> is_line_terminator c"
      by (auto simp: bearer_match_def Let_def split: if_splits)
    with h p ws sp False show ?thesis by metis
  next
    case True
    with assms ws have t: "t = [last ?ws]" and l: "2 \<le> length ?ws" "\<not> is_line_terminator (last ?ws)"
      by (auto simp: bearer_match_def Let_def split: if_splits)
    have "?ws = butlast ?ws @ [last ?ws]" using ws by simp
    then have "h = take 6 h @ butlast ?ws @ t" using h True t by (metis append_Nil2)
    moreover have "butlast ?ws \<noteq> []" using l(1) by (cases ?ws rule: rev_cases) auto
    moreover have "\<forall>c \<in> set (butlast ?ws). is_space c" using sp by (auto dest: in_set_butlastD)
    ultimately show ?thesis using p t l(2) by (intro exI[of _ "take 6 h"] exI[of _ "butlast ?ws"]) simp
  qed
qed

lemma bearer_match_complete:
  assumes h: "h = p @ ws @ t" and p: "map ascii_upper p = ''BEARER''" and ws: "ws \<noteq> []" "\<forall>c \<in> set ws. is_space c"
    and t: "t \<noteq> []" "\<forall>c \<in> set t. \<not> is_line_terminator c"
  shows "bearer_match h \<noteq> None"
proof -
  have "length (map ascii_upper p) = length ''BEARER''" using p by simp
  then have lp: "length p = 6" by simp
  have tk: "take 6 h = p" and dr: "drop 6 h = ws @ t" using h lp by simp_all
  let ?ws = "ws @ takeWhile is_space t" and ?t = "dropWhile is_space t"
  have tw: "takeWhile is_space (drop 6 h) = ?ws" and dw: "dropWhile is_space (drop 6 h) = ?t"
    unfolding dr using takeWhile_dropWhile_space[OF ws(2), of t] by simp_all
  have ne: "?ws \<noteq> []" using ws(1) by simp
  show ?thesis
  proof (cases "?t = []")
    case False
    have "\<forall>c \<in> set ?t. \<not> is_line_terminator c" using t(2) by (auto dest: set_dropWhileD)
    then show ?thesis using False ne p
      unfolding bearer_match_def tk tw dw by (simp add: Let_def)
  next
    case True
    then have all: "takeWhile is_space t = t" by (metis takeWhile_dropWhile_id append_Nil2)
    have len: "2 \<le> length ?ws" unfolding all using ws(1) t(1)
      by (cases ws; cases t) auto
    have "last ?ws = last t" unfolding all using t(1) by simp
    then have "\<not> is_line_terminator (last ?ws)" using t by simp
    then show ?thesis using True ne p len
      unfolding bearer_match_def tk tw dw by (simp add: Let_def)
  qed
qed

lemma gates_agree_on_plain_header:
  assumes "t \<noteq> []" "\<not> is_space (hd t)" "\<forall>c \<in> set t. \<not> is_line_terminator c"
  shows "bearer_match (''Bearer '' @ t) = Some t \<and> rateLimitApiKey (Some (''Bearer '' @ t)) = Some t"
proof -
  from assms(1) obtain c cs where t: "t = c # cs" by (cases t) auto
  have "\<not> is_space c" using assms(2) t by simp
  then show ?thesis using assms(3) t
    by (simp add: bearer_match_def ascii_upper_def is_space_def rateLimitApiKey_def startsWith_def Let_def)
qed

text \<open>
  Claim C3 fails on the code. The header \<open>bearer abc\<close> passes the authenticator, whose
  pattern captures the token \<open>abc\<close>; the rate limiter removes the case-sensitive
  substring \<open>Bearer \<close> and so keeps \<open>bearer abc\<close> as the credential. With two spaces,
  \<open>Bearer  abc\<close>, the token is \<open>abc\<close> and the credential is \<open> abc\<close>. A request with such a
  header is counted under a key of its own, not under the key of \<open>Bearer abc\<close>.
\<close>

theorem C3_parsing_differs:
  "verifyApiKey (Some ''bearer abc'') (Inr None) = None \<and>
   bearer_match ''bearer abc'' = Some ''abc'' \<and>
   rateLimitApiKey (Some ''bearer abc'') = Some ''bearer abc'' \<and>
   bearer_match ''Bearer  abc'' = Some ''abc'' \<and>
   rateLimitApiKey (Some ''Bearer  abc'') = Some '' abc'' \<and>
   snd (checkRateLimit (Some ''bearer abc'') 0 Map.empty) (rateLimitKey ''abc'') = None \<and>
   snd (checkRateLimit (Some ''Bearer abc'') 0 Map.empty) (rateLimitKey ''abc'') \<noteq> None"
  by (simp add: verifyApiKey_def bearer_match_def ascii_upper_def is_space_def is_line_terminator_def
      rateLimitApiKey_def startsWith_def checkRateLimit_def kv_get_def kv_put_def rateLimitKey_def
      RATE_LIMIT_def Let_def)

section \<open>The request validator\<close>

text \<open>
  The three examples of the specification, and the order of the loop: the response of
  the loop is the response to the first message that does not pass, at its index.
\<close>

lemma validateRequestBody_examples:
  "validateRequestBody
     (JObject [(''model'', JString ''llama''),
               (''messages'', JArray [JObject [(''role'', JString ''bogus''), (''content'', JString ''x'')]])])
   = Inr (Some (createErrorResponse
        ''message at index 0 has invalid role. Must be one of: system, user, assistant''
        ''invalid_request_error'' (Some ''messages'') None 400))"
  "validateRequestBody
     (JObject [(''model'', JString ''llama''),
               (''messages'', JArray [JObject [(''role'', JString ''user''), (''content'', JString ''x'')]]),
               (''temperature'', JNumber 3)])
   = Inr (Some (createErrorResponse ''temperature must be a number between 0 and 2''
        ''invalid_request_error'' (Some ''temperature'') None 400))"
  "validateRequestBody
     (JObject [(''model'', JString ''llama''),
               (''messages'', JArray [JObject [(''role'', JString ''user''), (''content'', JString ''x'')]]),
               (''max_tokens'', JNumber 0)])
   = Inr (Some (createErrorResponse ''max_tokens must be a positive number''
        ''invalid_request_error'' (Some ''max_tokens'') None 400))"
  by (simp_all add: validateRequestBody_def validateOptions_def invalid_request_def nat_toString_small)

lemma validateMessages_first_offender:
  assumes "validateMessages i ms = Inr (Some r)"
  shows "\<exists>j < length ms. (\<forall>k < j. validateMessages (i + k) [ms ! k] = Inr None) \<and>
                          validateMessages (i + j) [ms ! j] = Inr (Some r)"
  using assms
proof (induction ms arbitrary: i)
  case Nil
  then show ?case by simp
next
  case (Cons m ms)
  show ?case
  proof (cases "validateMessages i [m]")
    case (Inl e)
    with Cons.prems show ?thesis by (auto split: sum.splits if_splits)
  next
    case (Inr v)
    show ?thesis
    proof (cases v)
      case (Some r')
      with Inr Cons.prems have "r' = r" by (auto split: sum.splits if_splits)
      with Some Inr have "validateMessages (i + 0) [(m # ms) ! 0] = Inr (Some r)" by simp
      then show ?thesis by (intro exI[of _ 0]) simp
    next
      case None
      with Inr Cons.prems have "validateMessages (Suc i) ms = Inr (Some r)"
        by (auto split: sum.splits if_splits)
      from Cons.IH[OF this] obtain j where j: "j < length ms"
        "\<forall>k < j. validateMessages (Suc i + k) [ms ! k] = Inr None"
        "validateMessages (Suc i + j) [ms ! j] = Inr (Some r)" by blast
      have "\<forall>k < Suc j. validateMessages (i + k) [(m # ms) ! k] = Inr None"
      proof (intro allI impI)
        fix k assume "k < Suc j"
        then show "validateMessages (i + k) [(m # ms) ! k] = Inr None"
          using j(2) None Inr by (cases k) auto
      qed
      moreover have "validateMessages (i + Suc j) [(m # ms) ! Suc j] = Inr (Some r)"
        using j(3) by simp
      ultimately show ?thesis using j(1) by (intro exI[of _ "Suc j"]) simp
    qed
  qed
qed

text \<open>
  Claim C5 fails on the code at a message whose content is not a string: the validator
  tests \<open>!message.content\<close> only, so the content \<open>5\<close> is accepted although the message it
  reports for this check is "must have non-empty content string". At a message that is
  \<open>null\<close> the validator does not return a response at all: reading \<open>message.content\<close>
  throws.
\<close>

theorem C5_content_not_a_string:
  "validateRequestBody
     (JObject [(''model'', JString ''llama''),
               (''messages'', JArray [JObject [(''role'', JString ''user''), (''content'', JNumber 5)]])])
   = Inr None \<and>
   validateRequestBody (JObject [(''model'', JString ''llama''), (''messages'', JArray [JNull])])
   = Inl (Error (''Cannot read properties of null (reading '' @ [CHR 0x27] @ ''content'' @ [CHR 0x27] @ '')''))"
  by (simp add: validateRequestBody_def validateOptions_def)

section \<open>The streaming transcoder\<close>

lemma processChunk_skipped: "\<not> decodes P l \<Longrightarrow> processChunk P mdl st l = st"
  by (auto simp: processChunk_def decodes_def Let_def)

lemma processChunk_decoded:
  assumes "jsonStr_of l \<noteq> []" "jsonStr_of l \<noteq> ''[DONE]''" "JSON_parse P (jsonStr_of l) = Some d"
  shows "processChunk P mdl st l =
     \<lparr>sentRole = True,
      enqueued = enqueued st
        @ (if sentRole st then []
           else [Data (mk_chunk (''chatcmpl-'' @ randomUUID P (uuids st)) (now_seconds P (clocks st)) mdl
                         (RoleDelta ''assistant'') None)])
        @ (case get_prop d ''response'' of
             Inr (Some v) \<Rightarrow>
               if truthy v then
                 [Data (mk_chunk (''chatcmpl-'' @ randomUUID P (uuids st)) (now_seconds P (clocks st)) mdl
                          (ContentDelta v) None)]
               else []
           | _ \<Rightarrow> []),
      uuids = Suc (uuids st), clocks = Suc (clocks st)\<rparr>"
  using assms
  by (cases st) (auto simp: processChunk_def Let_def enqueue_def split: sum.splits option.splits)

lemma takeWhile_line: "newline \<notin> set l \<Longrightarrow> takeWhile (\<lambda>c. c \<noteq> newline) (l @ newline # t) = l"
  by (induction l) auto

lemma splitLines_no_newline: "newline \<notin> set b \<Longrightarrow> splitLines P mdl st b = (st, b)"
  by (simp add: splitLines.simps)

lemma splitLines_line:
  "newline \<notin> set l \<Longrightarrow>
   splitLines P mdl st (l @ newline # t) =
   splitLines P mdl (if l \<noteq> [] then processChunk P mdl st l else st) t"
  by (subst splitLines.simps) (simp add: indexOf_newline_def takeWhile_line Let_def)

lemma split_at_newline:
  "newline \<in> set b \<Longrightarrow>
   b = take (indexOf_newline b) b @ newline # drop (indexOf_newline b + 1) b \<and>
   newline \<notin> set (take (indexOf_newline b) b)"
proof (induction b)
  case Nil
  then show ?case by simp
next
  case (Cons c b)
  then show ?case by (cases "c = newline") (auto simp: indexOf_newline_def)
qed

lemma splitLines_append:
  "splitLines P mdl st (b @ t) = (case splitLines P mdl st b of (st', b') \<Rightarrow> splitLines P mdl st' (b' @ t))"
proof (induction P mdl st b rule: splitLines.induct)
  case (1 P mdl st b)
  show ?case
  proof (cases "newline \<in> set b")
    case False
    then show ?thesis by (simp add: splitLines_no_newline)
  next
    case True
    let ?l = "take (indexOf_newline b) b" and ?r = "drop (indexOf_newline b + 1) b"
    from split_at_newline[OF True] have b: "b = ?l @ newline # ?r" and l: "newline \<notin> set ?l" by simp_all
    let ?st = "if ?l \<noteq> [] then processChunk P mdl st ?l else st"
    have "splitLines P mdl st (b @ t) = splitLines P mdl ?st (?r @ t)"
      using splitLines_line[OF l, of P mdl st "?r @ t"] b by (metis append.assoc append_Cons)
    also have "\<dots> = (case splitLines P mdl ?st ?r of (st', b') \<Rightarrow> splitLines P mdl st' (b' @ t))"
      using "1.IH"[OF True refl refl refl] by simp
    also have "splitLines P mdl ?st ?r = splitLines P mdl st b"
      using splitLines_line[OF l, of P mdl st ?r] b by simp
    finally show ?thesis .
  qed
qed

lemma splitLines_rest: "newline \<notin> set (snd (splitLines P mdl st b))"
proof (induction P mdl st b rule: splitLines.induct)
  case (1 P mdl st b)
  show ?case
  proof (cases "newline \<in> set b")
    case False
    then show ?thesis by (simp add: splitLines_no_newline)
  next
    case True
    from "1.IH"[OF True refl refl refl] True show ?thesis
      by (subst splitLines.simps) (simp add: Let_def)
  qed
qed

lemma readLoop_concat:
  "newline \<notin> set buf \<Longrightarrow>
   readLoop P mdl st buf texts e =
   (case splitLines P mdl st (buf @ concat texts) of (st', b') \<Rightarrow> readLoop P mdl st' b' [] e)"
proof (induction texts arbitrary: st buf)
  case Nil
  then show ?case by (simp add: splitLines_no_newline)
next
  case (Cons t ts)
  obtain st1 b1 where s1: "splitLines P mdl st (buf @ t) = (st1, b1)"
    by (cases "splitLines P mdl st (buf @ t)") blast
  have "newline \<notin> set b1" using splitLines_rest[of P mdl st "buf @ t"] s1 by simp
  from Cons.IH[OF this, of st1]
  have "readLoop P mdl st1 b1 ts e =
        (case splitLines P mdl st1 (b1 @ concat ts) of (st', b') \<Rightarrow> readLoop P mdl st' b' [] e)" .
  moreover have "splitLines P mdl st ((buf @ t) @ concat ts) = splitLines P mdl st1 (b1 @ concat ts)"
    using splitLines_append[of P mdl st "buf @ t" "concat ts"] s1 by simp
  ultimately show ?case using s1 by simp
qed

lemma transformedStream_done:
  "transformedStream P mdl texts None =
   finishStream P mdl (fst (splitLines P mdl start_state (concat texts)))
                      (snd (splitLines P mdl start_state (concat texts)))"
  using readLoop_concat[of "[]" P mdl start_state texts None]
  by (simp add: transformedStream_def split: prod.splits)

lemma transformedStream_failed:
  "transformedStream P mdl texts (Some err) =
   EventStream (enqueued (fst (splitLines P mdl start_state (concat texts)))) (Errored err)"
  using readLoop_concat[of "[]" P mdl start_state texts "Some err"]
  by (simp add: transformedStream_def split: prod.splits)

lemma splitLines_blank: "splitLines P mdl st (replicate n newline @ t) = splitLines P mdl st t"
proof (induction n)
  case 0
  then show ?case by simp
next
  case (Suc n)
  then show ?case using splitLines_line[of "[]" P mdl st "replicate n newline @ t"] by simp
qed

lemma two_lines:
  assumes l1: "newline \<notin> set l1" "l1 \<noteq> []" and l2: "newline \<notin> set l2" "l2 \<noteq> []"
  shows "finishStream P mdl
           (fst (splitLines P mdl st
                  (replicate i newline @ l1 @ newline # replicate j newline @ l2 @ replicate k newline)))
           (snd (splitLines P mdl st
                  (replicate i newline @ l1 @ newline # replicate j newline @ l2 @ replicate k newline)))
         = finishStream P mdl (processChunk P mdl (processChunk P mdl st l1) l2) []"
proof -
  let ?s1 = "processChunk P mdl st l1"
  let ?s2 = "processChunk P mdl ?s1 l2"
  have "splitLines P mdl st
          (replicate i newline @ l1 @ newline # replicate j newline @ l2 @ replicate k newline)
        = splitLines P mdl st (l1 @ newline # replicate j newline @ l2 @ replicate k newline)"
    by (rule splitLines_blank)
  also have "\<dots> = splitLines P mdl ?s1 (replicate j newline @ l2 @ replicate k newline)"
    using splitLines_line[OF l1(1), of P mdl st] l1(2) by simp
  also have "\<dots> = splitLines P mdl ?s1 (l2 @ replicate k newline)"
    by (rule splitLines_blank)
  finally have first: "splitLines P mdl st
          (replicate i newline @ l1 @ newline # replicate j newline @ l2 @ replicate k newline)
        = splitLines P mdl ?s1 (l2 @ replicate k newline)" .
  show ?thesis
  proof (cases k)
    case 0
    then have "splitLines P mdl ?s1 (l2 @ replicate k newline) = (?s1, l2)"
      using l2(1) by (simp add: splitLines_no_newline)
    then show ?thesis unfolding first using l2(2) by (simp add: finishStream_def)
  next
    case (Suc k')
    have "splitLines P mdl ?s1 (l2 @ newline # replicate k' newline @ []) = splitLines P mdl ?s2 (replicate k' newline @ [])"
      using splitLines_line[OF l2(1), of P mdl ?s1] l2(2) by simp
    also have "\<dots> = splitLines P mdl ?s2 []" by (rule splitLines_blank)
    also have "\<dots> = (?s2, [])" by (simp add: splitLines_no_newline)
    finally have "splitLines P mdl ?s1 (l2 @ replicate k newline) = (?s2, [])"
      using Suc by simp
    then show ?thesis unfolding first by simp
  qed
qed

text \<open>
  Claim C1. Whatever the chunks of the upstream stream are, when the text they carry
  consists of the line \<open>data: {"response":"Hi"}\<close> and the line
  \<open>data: {"response":" there"}\<close>, with any number of empty lines before, between and after
  them (the last line with or without its line feed), and the stream then ends, the
  transcoder enqueues exactly: the role chunk, the content chunk of \<open>Hi\<close>, the content
  chunk of \<open> there\<close>, the terminal chunk with an empty delta and \<open>finish_reason\<close>
  \<open>stop\<close>, and the \<open>[DONE]\<close> sentinel, and closes the stream.
\<close>

theorem C1_two_events:
  assumes hi: \<open>JSON_parse P ''{"response":"Hi"}'' = Some (JObject [(''response'', JString ''Hi'')])\<close>
    and there: \<open>JSON_parse P ''{"response":" there"}'' = Some (JObject [(''response'', JString '' there'')])\<close>
    and input: \<open>concat texts =
        replicate i newline @ ''data: {"response":"Hi"}'' @ newline # replicate j newline @
        ''data: {"response":" there"}'' @ replicate k newline\<close>
  shows "transformedStream P mdl texts None =
     EventStream
       [Data \<lparr>chunk_id = ''chatcmpl-'' @ randomUUID P 0, chunk_object = ''chat.completion.chunk'',
              created = now_seconds P 0, chunk_model = mdl,
              choices = [\<lparr>index = 0, delta = RoleDelta ''assistant'', finish_reason = None\<rparr>]\<rparr>,
        Data \<lparr>chunk_id = ''chatcmpl-'' @ randomUUID P 0, chunk_object = ''chat.completion.chunk'',
              created = now_seconds P 0, chunk_model = mdl,
              choices = [\<lparr>index = 0, delta = ContentDelta (JString ''Hi''), finish_reason = None\<rparr>]\<rparr>,
        Data \<lparr>chunk_id = ''chatcmpl-'' @ randomUUID P 1, chunk_object = ''chat.completion.chunk'',
              created = now_seconds P 1, chunk_model = mdl,
              choices = [\<lparr>index = 0, delta = ContentDelta (JString '' there''), finish_reason = None\<rparr>]\<rparr>,
        Data \<lparr>chunk_id = ''chatcmpl-'' @ randomUUID P 2, chunk_object = ''chat.completion.chunk'',
              created = now_seconds P 2, chunk_model = mdl,
              choices = [\<lparr>index = 0, delta = EmptyDelta, finish_reason = Some ''stop''\<rparr>]\<rparr>,
        DoneSentinel]
       Closed"
proof -
  let ?l1 = \<open>''data: {"response":"Hi"}''\<close> and ?l2 = \<open>''data: {"response":" there"}''\<close>
  let ?s1 = "processChunk P mdl start_state ?l1"
  let ?s2 = "processChunk P mdl ?s1 ?l2"
  have j1: \<open>jsonStr_of ?l1 = ''{"response":"Hi"}''\<close>
    and j2: \<open>jsonStr_of ?l2 = ''{"response":" there"}''\<close>
    by (simp_all add: jsonStr_of_def startsWith_def)
  have n1: "newline \<notin> set ?l1" and n2: "newline \<notin> set ?l2"
    by (simp_all add: newline_def)
  have e1: "?l1 \<noteq> []" and e2: "?l2 \<noteq> []" by simp_all
  have s1: "?s1 = \<lparr>sentRole = True,
      enqueued = [Data (mk_chunk (''chatcmpl-'' @ randomUUID P 0) (now_seconds P 0) mdl (RoleDelta ''assistant'') None),
                  Data (mk_chunk (''chatcmpl-'' @ randomUUID P 0) (now_seconds P 0) mdl (ContentDelta (JString ''Hi'')) None)],
      uuids = 1, clocks = 1\<rparr>"
    using processChunk_decoded[of ?l1 P _ mdl start_state] hi
    by (simp add: j1 start_state_def)
  have s2: "?s2 = \<lparr>sentRole = True,
      enqueued = [Data (mk_chunk (''chatcmpl-'' @ randomUUID P 0) (now_seconds P 0) mdl (RoleDelta ''assistant'') None),
                  Data (mk_chunk (''chatcmpl-'' @ randomUUID P 0) (now_seconds P 0) mdl (ContentDelta (JString ''Hi'')) None),
                  Data (mk_chunk (''chatcmpl-'' @ randomUUID P 1) (now_seconds P 1) mdl (ContentDelta (JString '' there'')) None)],
      uuids = 2, clocks = 2\<rparr>"
    using processChunk_decoded[of ?l2 P _ mdl ?s1] there
    by (simp add: j2 s1)
  have "transformedStream P mdl texts None = finishStream P mdl ?s2 []"
    unfolding transformedStream_done input by (rule two_lines[OF n1 e1 n2 e2])
  then show ?thesis
    by (simp add: finishStream_def s2 mk_chunk_def)
qed

text \<open>
  The two lines in two chunks that cut the first line, with one empty line between
  them, on the demo platform.
\<close>

theorem C1_two_events_witness:
  \<open>transformedStream demo_platform (Some (JString ''llama''))
     [''data: {"resp'', ''onse":"Hi"}'' @ [newline, newline] @ ''data: {"response":" there"}'' @ [newline]] None =
   EventStream
     [Data \<lparr>chunk_id = ''chatcmpl-0'', chunk_object = ''chat.completion.chunk'',
            created = 1700000000, chunk_model = Some (JString ''llama''),
            choices = [\<lparr>index = 0, delta = RoleDelta ''assistant'', finish_reason = None\<rparr>]\<rparr>,
      Data \<lparr>chunk_id = ''chatcmpl-0'', chunk_object = ''chat.completion.chunk'',
            created = 1700000000, chunk_model = Some (JString ''llama''),
            choices = [\<lparr>index = 0, delta = ContentDelta (JString ''Hi''), finish_reason = None\<rparr>]\<rparr>,
      Data \<lparr>chunk_id = ''chatcmpl-1'', chunk_object = ''chat.completion.chunk'',
            created = 1700000001, chunk_model = Some (JString ''llama''),
            choices = [\<lparr>index = 0, delta = ContentDelta (JString '' there''), finish_reason = None\<rparr>]\<rparr>,
      Data \<lparr>chunk_id = ''chatcmpl-2'', chunk_object = ''chat.completion.chunk'',
            created = 1700000002, chunk_model = Some (JString ''llama''),
            choices = [\<lparr>index = 0, delta = EmptyDelta, finish_reason = Some ''stop''\<rparr>]\<rparr>,
      DoneSentinel]
     Closed\<close>
proof -
  have hi: \<open>JSON_parse demo_platform ''{"response":"Hi"}'' = Some (JObject [(''response'', JString ''Hi'')])\<close>
    by (simp add: demo_platform_def parse_event_def)
  have there: \<open>JSON_parse demo_platform ''{"response":" there"}'' = Some (JObject [(''response'', JString '' there'')])\<close>
    by (simp add: demo_platform_def parse_event_def)
  have input: \<open>concat [''data: {"resp'', ''onse":"Hi"}'' @ [newline, newline] @ ''data: {"response":" there"}'' @ [newline]] =
        replicate 0 newline @ ''data: {"response":"Hi"}'' @ newline # replicate 1 newline @
        ''data: {"response":" there"}'' @ replicate 1 newline\<close>
    by simp
  from C1_two_events[OF hi there input, of "Some (JString ''llama'')"] show ?thesis
    by (simp add: demo_platform_def nat_toString_small)
qed

lemma splitLines_invariant:
  assumes "\<And>st l. I st \<Longrightarrow> I (processChunk P mdl st l)" and "I st"
  shows "I (fst (splitLines P mdl st b))"
  using assms
proof (induction P mdl st b rule: splitLines.induct)
  case (1 P mdl st b)
  show ?case
  proof (cases "newline \<in> set b")
    case False
    then show ?thesis using "1.prems" by (simp add: splitLines_no_newline)
  next
    case True
    let ?l = "take (indexOf_newline b) b"
    have "I (if ?l \<noteq> [] then processChunk P mdl st ?l else st)"
      using "1.prems" by simp
    from "1.IH"[OF True refl refl refl "1.prems"(1) this] True show ?thesis
      by (subst splitLines.simps) (simp add: Let_def)
  qed
qed

lemma flushed_invariant:
  assumes "\<And>st l. I st \<Longrightarrow> I (processChunk P mdl st l)" and "I start_state"
  shows "I (flushed P mdl inp)" and "I (fst (splitLines P mdl start_state inp))"
  using splitLines_invariant[of I P mdl start_state inp, OF assms] assms(1)
  by (auto simp: flushed_def split: prod.splits)

lemma transformedStream_flushed:
  "transformedStream P mdl texts None =
   EventStream
     (enqueued (flushed P mdl (concat texts)) @
      [Data (mk_chunk (''chatcmpl-'' @ randomUUID P (uuids (flushed P mdl (concat texts))))
                      (now_seconds P (clocks (flushed P mdl (concat texts)))) mdl EmptyDelta (Some ''stop'')),
       DoneSentinel])
     Closed"
  by (simp add: transformedStream_done finishStream_def flushed_def Let_def split: prod.splits)

lemma processChunk_open:
  "list_all open_chunk (enqueued st) \<Longrightarrow> list_all open_chunk (enqueued (processChunk P mdl st l))"
proof (cases "decodes P l")
  case False
  assume "list_all open_chunk (enqueued st)"
  then show ?thesis using False by (simp add: processChunk_skipped)
next
  case True
  assume a: "list_all open_chunk (enqueued st)"
  from True obtain d where d: "jsonStr_of l \<noteq> []" "jsonStr_of l \<noteq> ''[DONE]''" "JSON_parse P (jsonStr_of l) = Some d"
    by (auto simp: decodes_def)
  show ?thesis
    unfolding processChunk_decoded[OF d] using a
    by (auto simp: mk_chunk_def split: sum.splits option.splits)
qed

lemma splitLines_complete:
  "b = [] \<or> last b = newline \<Longrightarrow> snd (splitLines P mdl st b) = []"
proof (induction P mdl st b rule: splitLines.induct)
  case (1 P mdl st b)
  show ?case
  proof (cases "newline \<in> set b")
    case False
    with "1.prems" have "b = []" by (cases b rule: rev_cases) auto
    then show ?thesis by (simp add: splitLines_no_newline)
  next
    case True
    let ?l = "take (indexOf_newline b) b" and ?r = "drop (indexOf_newline b + 1) b"
    from split_at_newline[OF True] have b: "b = ?l @ newline # ?r" by simp
    have "?r = [] \<or> last ?r = newline"
    proof (cases "?r = []")
      case False
      have "last b = last (?l @ newline # ?r)" using b by simp
      also have "\<dots> = last ?r" using False by simp
      finally show ?thesis using "1.prems" True by auto
    qed simp
    from "1.IH"[OF True refl refl refl this] True show ?thesis
      by (subst splitLines.simps) (simp add: Let_def)
  qed
qed

lemma splitLines_skip_line:
  assumes bad: "\<not> decodes P l" and nl: "newline \<notin> set l" and a: "a = [] \<or> last a = newline"
  shows "splitLines P mdl st (a @ l @ newline # c) = splitLines P mdl st (a @ c)"
proof -
  obtain st' b' where s: "splitLines P mdl st a = (st', b')" by (cases "splitLines P mdl st a") blast
  have b': "b' = []" using splitLines_complete[OF a, of P mdl st] s by simp
  have "splitLines P mdl st (a @ l @ newline # c) = splitLines P mdl st' (l @ newline # c)"
    using splitLines_append[of P mdl st a "l @ newline # c"] s b' by simp
  also have "\<dots> = splitLines P mdl st' c"
    using splitLines_line[OF nl, of P mdl st' c] bad by (simp add: processChunk_skipped)
  also have "\<dots> = splitLines P mdl st (a @ c)"
    using splitLines_append[of P mdl st a c] s b' by simp
  finally show ?thesis .
qed

lemma processChunk_extends:
  "\<exists>ext. enqueued (processChunk P mdl st l) = enqueued st @ ext \<and> list_all open_chunk ext"
proof (cases "decodes P l")
  case False
  then show ?thesis by (simp add: processChunk_skipped)
next
  case True
  then obtain d where d: "jsonStr_of l \<noteq> []" "jsonStr_of l \<noteq> ''[DONE]''" "JSON_parse P (jsonStr_of l) = Some d"
    by (auto simp: decodes_def)
  show ?thesis
    unfolding processChunk_decoded[OF d]
    by (auto simp: mk_chunk_def split: sum.splits option.splits)
qed

lemma splitLines_extends:
  "\<exists>ext. enqueued (fst (splitLines P mdl st b)) = enqueued st @ ext \<and> list_all open_chunk ext"
proof -
  let ?I = "\<lambda>s::tstate. \<exists>ext. enqueued s = enqueued st @ ext \<and> list_all open_chunk ext"
  have step: "\<And>s l. ?I s \<Longrightarrow> ?I (processChunk P mdl s l)"
  proof -
    fix s l assume "?I s"
    then obtain ext where e: "enqueued s = enqueued st @ ext" "list_all open_chunk ext" by blast
    from processChunk_extends[of P mdl s l] obtain ext' where
      e': "enqueued (processChunk P mdl s l) = enqueued s @ ext'" "list_all open_chunk ext'" by blast
    have "enqueued (processChunk P mdl s l) = enqueued st @ (ext @ ext')" using e e' by simp
    moreover have "list_all open_chunk (ext @ ext')" using e e' by simp
    ultimately show "?I (processChunk P mdl s l)" by blast
  qed
  have init: "?I st" by simp
  show ?thesis using splitLines_invariant[of ?I P mdl st b, OF step init] .
qed

lemma finishStream_extends:
  "\<exists>ext j u. finishStream P mdl st b =
      EventStream (enqueued st @ ext @
        [Data \<lparr>chunk_id = j, chunk_object = ''chat.completion.chunk'', created = u, chunk_model = mdl,
               choices = [\<lparr>index = 0, delta = EmptyDelta, finish_reason = Some ''stop''\<rparr>]\<rparr>,
         DoneSentinel]) Closed \<and> list_all open_chunk ext"
proof (cases "b = []")
  case True
  then show ?thesis by (simp add: finishStream_def mk_chunk_def Let_def)
next
  case False
  from processChunk_extends[of P mdl st b] obtain ext where
    "enqueued (processChunk P mdl st b) = enqueued st @ ext" "list_all open_chunk ext" by blast
  then show ?thesis using False by (auto simp: finishStream_def mk_chunk_def Let_def)
qed

lemma after_state_extends:
  "\<exists>ext j u. finishStream P mdl (fst (splitLines P mdl st b)) (snd (splitLines P mdl st b)) =
      EventStream (enqueued st @ ext @
        [Data \<lparr>chunk_id = j, chunk_object = ''chat.completion.chunk'', created = u, chunk_model = mdl,
               choices = [\<lparr>index = 0, delta = EmptyDelta, finish_reason = Some ''stop''\<rparr>]\<rparr>,
         DoneSentinel]) Closed \<and> list_all open_chunk ext"
proof -
  from splitLines_extends[of P mdl st b] obtain e1 where
    e1: "enqueued (fst (splitLines P mdl st b)) = enqueued st @ e1" "list_all open_chunk e1" by blast
  from finishStream_extends[of P mdl "fst (splitLines P mdl st b)" "snd (splitLines P mdl st b)"]
  obtain e2 j u where e2: "finishStream P mdl (fst (splitLines P mdl st b)) (snd (splitLines P mdl st b)) =
      EventStream (enqueued (fst (splitLines P mdl st b)) @ e2 @
        [Data \<lparr>chunk_id = j, chunk_object = ''chat.completion.chunk'', created = u, chunk_model = mdl,
               choices = [\<lparr>index = 0, delta = EmptyDelta, finish_reason = Some ''stop''\<rparr>]\<rparr>,
         DoneSentinel]) Closed" "list_all open_chunk e2" by blast
  have "list_all open_chunk (e1 @ e2)" using e1 e2 by simp
  moreover have "finishStream P mdl (fst (splitLines P mdl st b)) (snd (splitLines P mdl st b)) =
      EventStream (enqueued st @ (e1 @ e2) @
        [Data \<lparr>chunk_id = j, chunk_object = ''chat.completion.chunk'', created = u, chunk_model = mdl,
               choices = [\<lparr>index = 0, delta = EmptyDelta, finish_reason = Some ''stop''\<rparr>]\<rparr>,
         DoneSentinel]) Closed"
    using e1 e2 by simp
  ultimately show ?thesis by blast
qed

lemma jsonStr_of_not_Nil: "jsonStr_of g \<noteq> [] \<Longrightarrow> g \<noteq> []"
  by (auto simp: jsonStr_of_def startsWith_def)

text \<open>
  Claim C8. A line on which \<open>JSON.parse\<close> fails is skipped: the output of the transcoder
  is the output it has when that line is taken out of the upstream text, whatever comes
  before it and however the stream ends, both when the line is followed by a line feed
  and when it is the last line, flushed at the end. A later line that decodes to an event
  with a response fragment is still processed: its content chunk is in the output,
  before the terminal chunk. When the upstream stream ends, the output is a sequence of
  chunks with \<open>finish_reason\<close> \<open>null\<close>, then one terminal chunk with an empty delta and
  \<open>finish_reason\<close> \<open>stop\<close>, then the \<open>[DONE]\<close> sentinel, and the stream is closed; the output
  stream is errored exactly when a read of the upstream stream fails, with the error of
  that read.
\<close>

theorem C8_malformed_line_skipped:
  assumes bad: "JSON_parse P (jsonStr_of l) = None" and nl: "newline \<notin> set l"
    and a: "a = [] \<or> last a = newline"
  shows "(concat texts = a @ l @ newline # c \<and> concat texts' = a @ c \<longrightarrow>
            transformedStream P mdl texts e = transformedStream P mdl texts' e) \<and>
         (concat texts = a @ l \<and> concat texts' = a \<longrightarrow>
            transformedStream P mdl texts e = transformedStream P mdl texts' e) \<and>
         (concat texts = a @ l @ newline # g @ c \<and> (c = [] \<or> hd c = newline) \<and> newline \<notin> set g \<and>
          jsonStr_of g \<noteq> [] \<and> jsonStr_of g \<noteq> ''[DONE]'' \<and> JSON_parse P (jsonStr_of g) = Some d \<and>
          get_prop d ''response'' = Inr (Some v) \<and> truthy v \<longrightarrow>
            (\<exists>pre post i t j u. transformedStream P mdl texts None =
               EventStream
                 (pre @
                  Data \<lparr>chunk_id = i, chunk_object = ''chat.completion.chunk'', created = t, chunk_model = mdl,
                        choices = [\<lparr>index = 0, delta = ContentDelta v, finish_reason = None\<rparr>]\<rparr> #
                  post @
                  [Data \<lparr>chunk_id = j, chunk_object = ''chat.completion.chunk'', created = u, chunk_model = mdl,
                         choices = [\<lparr>index = 0, delta = EmptyDelta, finish_reason = Some ''stop''\<rparr>]\<rparr>,
                   DoneSentinel])
                 Closed \<and>
               list_all open_chunk pre \<and> list_all open_chunk post)) \<and>
         (\<exists>evs j u. transformedStream P mdl texts None =
              EventStream
                (evs @
                 [Data \<lparr>chunk_id = j, chunk_object = ''chat.completion.chunk'', created = u, chunk_model = mdl,
                        choices = [\<lparr>index = 0, delta = EmptyDelta, finish_reason = Some ''stop''\<rparr>]\<rparr>,
                  DoneSentinel])
                Closed \<and>
              list_all open_chunk evs) \<and>
         (\<exists>evs. transformedStream P mdl texts (Some err) = EventStream evs (Errored err) \<and>
              list_all open_chunk evs)"
proof -
  have nd: "\<not> decodes P l" using bad by (simp add: decodes_def)
  have 1: "concat texts = a @ l @ newline # c \<and> concat texts' = a @ c \<longrightarrow>
            transformedStream P mdl texts e = transformedStream P mdl texts' e" for c texts texts'
  proof
    assume h: "concat texts = a @ l @ newline # c \<and> concat texts' = a @ c"
    have "splitLines P mdl start_state (concat texts) = splitLines P mdl start_state (concat texts')"
      using h splitLines_skip_line[OF nd nl a, of mdl start_state c] by simp
    then show "transformedStream P mdl texts e = transformedStream P mdl texts' e"
      by (cases e) (simp_all add: transformedStream_done transformedStream_failed)
  qed
  obtain sa ba where sa: "splitLines P mdl start_state a = (sa, ba)"
    by (cases "splitLines P mdl start_state a") blast
  have ba: "ba = []" using splitLines_complete[OF a, of P mdl start_state] sa by simp
  have after_a: "splitLines P mdl start_state (a @ x) = splitLines P mdl sa x" for x
    using splitLines_append[of P mdl start_state a x] sa ba by simp
  have 2: "concat texts = a @ l \<and> concat texts' = a \<longrightarrow>
            transformedStream P mdl texts e = transformedStream P mdl texts' e"
  proof
    assume h: "concat texts = a @ l \<and> concat texts' = a"
    have l: "splitLines P mdl start_state (concat texts) = (sa, l)"
      using h after_a[of l] nl by (simp add: splitLines_no_newline)
    have a': "splitLines P mdl start_state (concat texts') = (sa, [])"
      using h sa ba by simp
    show "transformedStream P mdl texts e = transformedStream P mdl texts' e"
      by (cases e)
         (simp_all add: transformedStream_done transformedStream_failed l a' finishStream_def
            processChunk_skipped[OF nd])
  qed
  have open_sa: "list_all open_chunk (enqueued sa)"
    using flushed_invariant(2)[of "\<lambda>st. list_all open_chunk (enqueued st)" P mdl a] sa
    by (simp add: processChunk_open start_state_def)
  have 3: "concat texts = a @ l @ newline # g @ c \<and> (c = [] \<or> hd c = newline) \<and> newline \<notin> set g \<and>
          jsonStr_of g \<noteq> [] \<and> jsonStr_of g \<noteq> ''[DONE]'' \<and> JSON_parse P (jsonStr_of g) = Some d \<and>
          get_prop d ''response'' = Inr (Some v) \<and> truthy v \<longrightarrow>
            (\<exists>pre post i t j u. transformedStream P mdl texts None =
               EventStream
                 (pre @
                  Data \<lparr>chunk_id = i, chunk_object = ''chat.completion.chunk'', created = t, chunk_model = mdl,
                        choices = [\<lparr>index = 0, delta = ContentDelta v, finish_reason = None\<rparr>]\<rparr> #
                  post @
                  [Data \<lparr>chunk_id = j, chunk_object = ''chat.completion.chunk'', created = u, chunk_model = mdl,
                         choices = [\<lparr>index = 0, delta = EmptyDelta, finish_reason = Some ''stop''\<rparr>]\<rparr>,
                   DoneSentinel])
                 Closed \<and>
               list_all open_chunk pre \<and> list_all open_chunk post)"
  proof
    assume h: "concat texts = a @ l @ newline # g @ c \<and> (c = [] \<or> hd c = newline) \<and> newline \<notin> set g \<and>
          jsonStr_of g \<noteq> [] \<and> jsonStr_of g \<noteq> ''[DONE]'' \<and> JSON_parse P (jsonStr_of g) = Some d \<and>
          get_prop d ''response'' = Inr (Some v) \<and> truthy v"
    then have g: "newline \<notin> set g" "g \<noteq> []" and d: "jsonStr_of g \<noteq> []" "jsonStr_of g \<noteq> ''[DONE]''"
        "JSON_parse P (jsonStr_of g) = Some d" and v: "get_prop d ''response'' = Inr (Some v)" "truthy v"
      by (auto dest: jsonStr_of_not_Nil)
    let ?i = "''chatcmpl-'' @ randomUUID P (uuids sa)" and ?t = "now_seconds P (clocks sa)"
    let ?content = "Data \<lparr>chunk_id = ?i, chunk_object = ''chat.completion.chunk'', created = ?t, chunk_model = mdl,
                        choices = [\<lparr>index = 0, delta = ContentDelta v, finish_reason = None\<rparr>]\<rparr>"
    let ?pre = "enqueued sa @ (if sentRole sa then [] else [Data (mk_chunk ?i ?t mdl (RoleDelta ''assistant'') None)])"
    let ?sg = "processChunk P mdl sa g"
    have sg: "enqueued ?sg = ?pre @ [?content]"
      unfolding processChunk_decoded[OF d] using v by (simp add: mk_chunk_def)
    have pre: "list_all open_chunk ?pre" using open_sa by (simp add: mk_chunk_def)
    have skip: "splitLines P mdl start_state (concat texts) = splitLines P mdl sa (g @ c)"
    proof -
      have "splitLines P mdl start_state (concat texts) = splitLines P mdl start_state (a @ (g @ c))"
        using h splitLines_skip_line[OF nd nl a, of mdl start_state "g @ c"] by simp
      then show ?thesis using after_a[of "g @ c"] by simp
    qed
    have "\<exists>post j u. finishStream P mdl (fst (splitLines P mdl sa (g @ c))) (snd (splitLines P mdl sa (g @ c))) =
        EventStream (enqueued ?sg @ post @
          [Data \<lparr>chunk_id = j, chunk_object = ''chat.completion.chunk'', created = u, chunk_model = mdl,
                 choices = [\<lparr>index = 0, delta = EmptyDelta, finish_reason = Some ''stop''\<rparr>]\<rparr>,
           DoneSentinel]) Closed \<and> list_all open_chunk post"
    proof (cases c)
      case Nil
      then have "splitLines P mdl sa (g @ c) = (sa, g)" using g(1) by (simp add: splitLines_no_newline)
      then show ?thesis using g(2) by (simp add: finishStream_def mk_chunk_def Let_def)
    next
      case (Cons x c')
      with h have "c = newline # c'" by simp
      then have "splitLines P mdl sa (g @ c) = splitLines P mdl ?sg c'"
        using splitLines_line[OF g(1), of P mdl sa c'] g(2) by simp
      then show ?thesis using after_state_extends[of P mdl ?sg c'] by simp
    qed
    then obtain post j u where fin: "finishStream P mdl (fst (splitLines P mdl sa (g @ c))) (snd (splitLines P mdl sa (g @ c))) =
        EventStream (enqueued ?sg @ post @
          [Data \<lparr>chunk_id = j, chunk_object = ''chat.completion.chunk'', created = u, chunk_model = mdl,
                 choices = [\<lparr>index = 0, delta = EmptyDelta, finish_reason = Some ''stop''\<rparr>]\<rparr>,
           DoneSentinel]) Closed" and post: "list_all open_chunk post" by blast
    have "transformedStream P mdl texts None =
        EventStream (?pre @ ?content # post @
          [Data \<lparr>chunk_id = j, chunk_object = ''chat.completion.chunk'', created = u, chunk_model = mdl,
                 choices = [\<lparr>index = 0, delta = EmptyDelta, finish_reason = Some ''stop''\<rparr>]\<rparr>,
           DoneSentinel]) Closed"
      unfolding transformedStream_done skip fin sg by simp
    with pre post show "\<exists>pre post i t j u. transformedStream P mdl texts None =
               EventStream
                 (pre @
                  Data \<lparr>chunk_id = i, chunk_object = ''chat.completion.chunk'', created = t, chunk_model = mdl,
                        choices = [\<lparr>index = 0, delta = ContentDelta v, finish_reason = None\<rparr>]\<rparr> #
                  post @
                  [Data \<lparr>chunk_id = j, chunk_object = ''chat.completion.chunk'', created = u, chunk_model = mdl,
                         choices = [\<lparr>index = 0, delta = EmptyDelta, finish_reason = Some ''stop''\<rparr>]\<rparr>,
                   DoneSentinel])
                 Closed \<and>
               list_all open_chunk pre \<and> list_all open_chunk post"
      by blast
  qed
  have 4: "\<exists>evs j u. transformedStream P mdl texts None =
              EventStream
                (evs @
                 [Data \<lparr>chunk_id = j, chunk_object = ''chat.completion.chunk'', created = u, chunk_model = mdl,
                        choices = [\<lparr>index = 0, delta = EmptyDelta, finish_reason = Some ''stop''\<rparr>]\<rparr>,
                  DoneSentinel])
                Closed \<and>
              list_all open_chunk evs"
    using after_state_extends[of P mdl start_state "concat texts"]
    unfolding transformedStream_done by (simp add: start_state_def)
  have 5: "\<exists>evs. transformedStream P mdl texts (Some err) = EventStream evs (Errored err) \<and>
              list_all open_chunk evs"
    using flushed_invariant(2)[of "\<lambda>st. list_all open_chunk (enqueued st)" P mdl "concat texts"]
    unfolding transformedStream_failed by (simp add: processChunk_open start_state_def)
  from 1 2 3 4 5 show ?thesis by blast
qed

text \<open>
  The line \<open>data: {broken\<close> after the first line of the example changes nothing, followed
  by a line feed or not, and the content chunk of the line after it is in the output.
\<close>

theorem C8_malformed_line_skipped_witness:
  \<open>transformedStream demo_platform (Some (JString ''llama''))
     [''data: {"response":"Hi"}'' @ [newline] @ ''data: {broken'' @ [newline] @ ''data: {"response":" there"}''] None =
   transformedStream demo_platform (Some (JString ''llama''))
     [''data: {"response":"Hi"}'' @ [newline] @ ''data: {"response":" there"}''] None \<and>
   transformedStream demo_platform (Some (JString ''llama''))
     [''data: {"response":"Hi"}'' @ [newline] @ ''data: {broken''] None =
   transformedStream demo_platform (Some (JString ''llama''))
     [''data: {"response":"Hi"}'' @ [newline]] None \<and>
   (\<exists>i t. Data \<lparr>chunk_id = i, chunk_object = ''chat.completion.chunk'', created = t,
                 chunk_model = Some (JString ''llama''),
                 choices = [\<lparr>index = 0, delta = ContentDelta (JString '' there''), finish_reason = None\<rparr>]\<rparr>
      \<in> set (events_of (transformedStream demo_platform (Some (JString ''llama''))
           [''data: {"response":"Hi"}'' @ [newline] @ ''data: {broken'' @ [newline] @ ''data: {"response":" there"}''] None)))\<close>
proof -
  let ?a = \<open>''data: {"response":"Hi"}'' @ [newline]\<close> and ?g = \<open>''data: {"response":" there"}''\<close>
  let ?m = "Some (JString ''llama'')"
  have bad: "JSON_parse demo_platform (jsonStr_of ''data: {broken'') = None"
    by (simp add: demo_platform_def parse_event_def jsonStr_of_def startsWith_def)
  have nl: "newline \<notin> set ''data: {broken''" by (simp add: newline_def)
  have a: "?a = [] \<or> last ?a = newline" by simp
  note T = C8_malformed_line_skipped[OF bad nl a]
  have 1: "transformedStream demo_platform ?m [?a @ ''data: {broken'' @ [newline] @ ?g] None =
           transformedStream demo_platform ?m [?a @ ?g] None"
    using T[THEN conjunct1, of "[?a @ ''data: {broken'' @ [newline] @ ?g]" ?g "[?a @ ?g]" ?m None] by simp
  have 2: "transformedStream demo_platform ?m [?a @ ''data: {broken''] None =
           transformedStream demo_platform ?m [?a] None"
    using T[THEN conjunct2, THEN conjunct1, of "[?a @ ''data: {broken'']" "[?a]" ?m None] by simp
  have g: "newline \<notin> set ?g" by (simp add: newline_def)
  have j: \<open>jsonStr_of ?g = ''{"response":" there"}''\<close> by (simp add: jsonStr_of_def startsWith_def)
  have p: "JSON_parse demo_platform (jsonStr_of ?g) = Some (JObject [(''response'', JString '' there'')])"
    unfolding j by (simp add: demo_platform_def parse_event_def)
  have j': "jsonStr_of ?g \<noteq> []" "jsonStr_of ?g \<noteq> ''[DONE]''" unfolding j by simp_all
  have r: "get_prop (JObject [(''response'', JString '' there'')]) ''response'' = Inr (Some (JString '' there''))"
    "truthy (JString '' there'')" by simp_all
  have c: "concat [?a @ ''data: {broken'' @ [newline] @ ?g] = ?a @ ''data: {broken'' @ newline # ?g @ []"
    by simp
  from T[THEN conjunct2, THEN conjunct2, THEN conjunct1,
      of "[?a @ ''data: {broken'' @ [newline] @ ?g]" ?g "[]" "JObject [(''response'', JString '' there'')]"
        "JString '' there''" ?m] c g j' p r
  obtain pre post i t j u where
    "transformedStream demo_platform ?m [?a @ ''data: {broken'' @ [newline] @ ?g] None =
       EventStream
         (pre @
          Data \<lparr>chunk_id = i, chunk_object = ''chat.completion.chunk'', created = t, chunk_model = ?m,
                choices = [\<lparr>index = 0, delta = ContentDelta (JString '' there''), finish_reason = None\<rparr>]\<rparr> #
          post @
          [Data \<lparr>chunk_id = j, chunk_object = ''chat.completion.chunk'', created = u, chunk_model = ?m,
                 choices = [\<lparr>index = 0, delta = EmptyDelta, finish_reason = Some ''stop''\<rparr>]\<rparr>,
           DoneSentinel])
         Closed"
    by blast
  then have 3: "\<exists>i t. Data \<lparr>chunk_id = i, chunk_object = ''chat.completion.chunk'', created = t,
                 chunk_model = ?m,
                 choices = [\<lparr>index = 0, delta = ContentDelta (JString '' there''), finish_reason = None\<rparr>]\<rparr>
      \<in> set (events_of (transformedStream demo_platform ?m [?a @ ''data: {broken'' @ [newline] @ ?g] None))"
    by auto
  from 1 2 3 show ?thesis by simp
qed

lemma stream_lines_no_newline: "newline \<notin> set b \<Longrightarrow> stream_lines b = [b]"
  by (simp add: stream_lines.simps)

lemma stream_lines_not_Nil: "stream_lines b \<noteq> []"
  by (subst stream_lines.simps) simp

lemma not_decodes_Nil: "\<not> decodes P []"
  by (simp add: decodes_def jsonStr_of_def startsWith_def)

lemma sentRole_processChunk: "sentRole (processChunk P mdl st l) = (sentRole st \<or> decodes P l)"
proof (cases "decodes P l")
  case False
  then show ?thesis by (simp add: processChunk_skipped)
next
  case True
  then obtain d where d: "jsonStr_of l \<noteq> []" "jsonStr_of l \<noteq> ''[DONE]''" "JSON_parse P (jsonStr_of l) = Some d"
    by (auto simp: decodes_def)
  show ?thesis using True by (simp add: processChunk_decoded[OF d])
qed

lemma splitLines_stream_lines:
  "sentRole (fst (splitLines P mdl st b)) = (sentRole st \<or> (\<exists>l \<in> set (butlast (stream_lines b)). decodes P l)) \<and>
   snd (splitLines P mdl st b) = last (stream_lines b)"
proof (induction P mdl st b rule: splitLines.induct)
  case (1 P mdl st b)
  show ?case
  proof (cases "newline \<in> set b")
    case False
    then show ?thesis by (simp add: splitLines_no_newline stream_lines_no_newline)
  next
    case True
    let ?l = "take (indexOf_newline b) b" and ?r = "drop (indexOf_newline b + 1) b"
    let ?st = "if ?l \<noteq> [] then processChunk P mdl st ?l else st"
    have sl: "stream_lines b = ?l # stream_lines ?r"
      using True by (subst stream_lines.simps) simp
    have sp: "splitLines P mdl st b = splitLines P mdl ?st ?r"
      using True by (subst splitLines.simps) (simp add: Let_def)
    have st: "sentRole ?st = (sentRole st \<or> decodes P ?l)"
      by (auto simp: sentRole_processChunk not_decodes_Nil)
    from "1.IH"[OF True refl refl refl]
    have IH: "sentRole (fst (splitLines P mdl ?st ?r)) =
                (sentRole ?st \<or> (\<exists>l \<in> set (butlast (stream_lines ?r)). decodes P l))"
             "snd (splitLines P mdl ?st ?r) = last (stream_lines ?r)"
      by simp_all
    show ?thesis
      unfolding sp sl using IH st stream_lines_not_Nil[of ?r] by auto
  qed
qed

lemma sentRole_flushed:
  "sentRole (flushed P mdl inp) = (\<exists>l \<in> set (stream_lines inp). decodes P l)"
proof -
  obtain st b where s: "splitLines P mdl start_state inp = (st, b)"
    by (cases "splitLines P mdl start_state inp") blast
  from splitLines_stream_lines[of P mdl start_state inp] s
  have 1: "sentRole st = (\<exists>l \<in> set (butlast (stream_lines inp)). decodes P l)"
    and 2: "b = last (stream_lines inp)"
    by (simp_all add: start_state_def)
  have "sentRole (flushed P mdl inp) = (sentRole st \<or> decodes P b)"
    using s by (auto simp: flushed_def sentRole_processChunk not_decodes_Nil)
  also have "\<dots> = (\<exists>l \<in> set (butlast (stream_lines inp) @ [last (stream_lines inp)]). decodes P l)"
    using 1 2 by auto
  also have "butlast (stream_lines inp) @ [last (stream_lines inp)] = stream_lines inp"
    using stream_lines_not_Nil by simp
  finally show ?thesis .
qed

lemma processChunk_role_first: "role_first st \<Longrightarrow> role_first (processChunk P mdl st l)"
proof (cases "decodes P l")
  case False
  assume "role_first st"
  then show ?thesis using False by (simp add: processChunk_skipped)
next
  case True
  assume a: "role_first st"
  from True obtain d where d: "jsonStr_of l \<noteq> []" "jsonStr_of l \<noteq> ''[DONE]''" "JSON_parse P (jsonStr_of l) = Some d"
    by (auto simp: decodes_def)
  show ?thesis
    unfolding processChunk_decoded[OF d] using a
    by (auto simp: role_first_def mk_chunk_def split: sum.splits option.splits)
qed

lemma processed_lines_sentRole:
  "(case e of None \<Rightarrow> sentRole (flushed P mdl inp)
            | Some err \<Rightarrow> sentRole (fst (splitLines P mdl start_state inp)))
   = (\<exists>l \<in> set (processed_lines e inp). decodes P l)"
proof (cases e)
  case None
  then show ?thesis by (simp add: processed_lines_def sentRole_flushed)
next
  case (Some err)
  then show ?thesis
    using splitLines_stream_lines[of P mdl start_state inp]
    by (simp add: processed_lines_def start_state_def)
qed

lemma processChunk_Nil: "processChunk P mdl st [] = st"
  by (simp add: processChunk_skipped not_decodes_Nil)

lemma splitLines_foldl:
  "splitLines P mdl st b =
     (foldl (processChunk P mdl) st (butlast (stream_lines b)), last (stream_lines b))"
proof (induction P mdl st b rule: splitLines.induct)
  case (1 P mdl st b)
  show ?case
  proof (cases "newline \<in> set b")
    case False
    then show ?thesis by (simp add: splitLines_no_newline stream_lines_no_newline)
  next
    case True
    let ?l = "take (indexOf_newline b) b" and ?r = "drop (indexOf_newline b + 1) b"
    let ?st = "if ?l \<noteq> [] then processChunk P mdl st ?l else st"
    have sl: "stream_lines b = ?l # stream_lines ?r"
      using True by (subst stream_lines.simps) simp
    have sp: "splitLines P mdl st b = splitLines P mdl ?st ?r"
      using True by (subst splitLines.simps) (simp add: Let_def)
    have st: "?st = processChunk P mdl st ?l" by (simp add: processChunk_Nil)
    from "1.IH"[OF True refl refl refl]
    have IH: "splitLines P mdl ?st ?r =
        (foldl (processChunk P mdl) ?st (butlast (stream_lines ?r)), last (stream_lines ?r))" .
    have "splitLines P mdl st b =
        (foldl (processChunk P mdl) (processChunk P mdl st ?l) (butlast (stream_lines ?r)),
         last (stream_lines ?r))"
      using sp IH st by simp
    then show ?thesis
      unfolding sl using stream_lines_not_Nil[of ?r] by simp
  qed
qed

lemma flushed_foldl: "flushed P mdl inp = foldl (processChunk P mdl) start_state (stream_lines inp)"
proof -
  have "flushed P mdl inp =
          processChunk P mdl (foldl (processChunk P mdl) start_state (butlast (stream_lines inp)))
            (last (stream_lines inp))"
    by (simp add: flushed_def splitLines_foldl processChunk_Nil)
  also have "\<dots> = foldl (processChunk P mdl) start_state (butlast (stream_lines inp) @ [last (stream_lines inp)])"
    by simp
  also have "butlast (stream_lines inp) @ [last (stream_lines inp)] = stream_lines inp"
    using stream_lines_not_Nil by simp
  finally show ?thesis .
qed

lemma foldl_skipped:
  "\<forall>x \<in> set pre. \<not> decodes P x \<Longrightarrow> foldl (processChunk P mdl) st pre = st"
  by (induction pre arbitrary: st) (simp_all add: processChunk_skipped)

lemma foldl_extends:
  "\<exists>ext. enqueued (foldl (processChunk P mdl) st ls) = enqueued st @ ext"
proof (induction ls arbitrary: st)
  case Nil
  then show ?case by simp
next
  case (Cons l ls)
  from processChunk_extends[of P mdl st l] obtain e1 where
    e1: "enqueued (processChunk P mdl st l) = enqueued st @ e1" by blast
  from Cons[of "processChunk P mdl st l"] obtain e2 where
    "enqueued (foldl (processChunk P mdl) (processChunk P mdl st l) ls) =
       enqueued (processChunk P mdl st l) @ e2" by blast
  with e1 have "enqueued (foldl (processChunk P mdl) st (l # ls)) = enqueued st @ (e1 @ e2)" by simp
  then show ?case by blast
qed

lemma foldl_role_first:
  "role_first st \<Longrightarrow> role_first (foldl (processChunk P mdl) st ls)"
  by (induction ls arbitrary: st) (simp_all add: processChunk_role_first)

lemma transformedStream_processed_lines:
  assumes "transformedStream P mdl texts e = EventStream evs en"
  shows "\<exists>tail. evs = enqueued (foldl (processChunk P mdl) start_state (processed_lines e (concat texts))) @ tail \<and>
                \<not> list_ex role_chunk tail"
proof (cases e)
  case None
  let ?f = "flushed P mdl (concat texts)"
  let ?t = "Data (mk_chunk (''chatcmpl-'' @ randomUUID P (uuids ?f)) (now_seconds P (clocks ?f)) mdl EmptyDelta (Some ''stop''))"
  have "evs = enqueued ?f @ [?t, DoneSentinel]"
    using assms unfolding None transformedStream_flushed by simp
  moreover have "\<not> list_ex role_chunk [?t, DoneSentinel]" by (simp add: mk_chunk_def)
  ultimately show ?thesis unfolding None by (auto simp: processed_lines_def flushed_foldl)
next
  case (Some err)
  have "evs = enqueued (fst (splitLines P mdl start_state (concat texts))) @ []"
    using assms unfolding Some transformedStream_failed by simp
  then show ?thesis unfolding Some by (auto simp: processed_lines_def splitLines_foldl)
qed

lemma first_decoded_line:
  assumes tr: "transformedStream P mdl texts e = EventStream evs en"
    and ls: "processed_lines e (concat texts) = pre @ l # post"
    and pre: "\<forall>x \<in> set pre. \<not> decodes P x"
    and d: "jsonStr_of l \<noteq> []" "jsonStr_of l \<noteq> ''[DONE]''" "JSON_parse P (jsonStr_of l) = Some d"
  shows "\<exists>rest. evs =
           Data \<lparr>chunk_id = ''chatcmpl-'' @ randomUUID P 0, chunk_object = ''chat.completion.chunk'',
                 created = now_seconds P 0, chunk_model = mdl,
                 choices = [\<lparr>index = 0, delta = RoleDelta ''assistant'', finish_reason = None\<rparr>]\<rparr> #
           (case get_prop d ''response'' of
              Inr (Some v) \<Rightarrow>
                if truthy v then
                  [Data \<lparr>chunk_id = ''chatcmpl-'' @ randomUUID P 0, chunk_object = ''chat.completion.chunk'',
                         created = now_seconds P 0, chunk_model = mdl,
                         choices = [\<lparr>index = 0, delta = ContentDelta v, finish_reason = None\<rparr>]\<rparr>]
                else []
            | _ \<Rightarrow> []) @ rest \<and>
           \<not> list_ex role_chunk rest"
proof -
  let ?role = "Data \<lparr>chunk_id = ''chatcmpl-'' @ randomUUID P 0, chunk_object = ''chat.completion.chunk'',
                 created = now_seconds P 0, chunk_model = mdl,
                 choices = [\<lparr>index = 0, delta = RoleDelta ''assistant'', finish_reason = None\<rparr>]\<rparr>"
  let ?content = "(case get_prop d ''response'' of
              Inr (Some v) \<Rightarrow>
                if truthy v then
                  [Data \<lparr>chunk_id = ''chatcmpl-'' @ randomUUID P 0, chunk_object = ''chat.completion.chunk'',
                         created = now_seconds P 0, chunk_model = mdl,
                         choices = [\<lparr>index = 0, delta = ContentDelta v, finish_reason = None\<rparr>]\<rparr>]
                else []
            | _ \<Rightarrow> [])"
  let ?s1 = "processChunk P mdl start_state l"
  let ?fin = "foldl (processChunk P mdl) start_state (processed_lines e (concat texts))"
  have s1: "enqueued ?s1 = ?role # ?content"
    unfolding processChunk_decoded[OF d]
    by (simp add: start_state_def mk_chunk_def split: sum.splits option.splits)
  have fin: "?fin = foldl (processChunk P mdl) ?s1 post"
    unfolding ls using foldl_skipped[OF pre, of mdl start_state] by simp
  from foldl_extends[of P mdl ?s1 post] obtain ext where
    ext: "enqueued ?fin = ?role # ?content @ ext" unfolding fin s1 by auto
  have "role_first ?fin"
    by (rule foldl_role_first) (simp add: role_first_def start_state_def)
  moreover have "sentRole ?fin"
  proof -
    have "enqueued ?fin \<noteq> []" using ext by simp
    then show ?thesis using \<open>role_first ?fin\<close> unfolding role_first_def by (cases "sentRole ?fin") auto
  qed
  ultimately have nr: "\<not> list_ex role_chunk (?content @ ext)"
    unfolding role_first_def ext by simp
  from transformedStream_processed_lines[OF tr] obtain tail where
    tail: "evs = enqueued ?fin @ tail" "\<not> list_ex role_chunk tail" by blast
  have "evs = ?role # ?content @ (ext @ tail)" using tail(1) ext by simp
  moreover have "\<not> list_ex role_chunk (ext @ tail)" using nr tail(2) by (auto simp: list_ex_iff)
  ultimately show ?thesis by blast
qed

text \<open>
  Claim C4, as amended. The role chunk (one choice with the role \<open>assistant\<close>, no content
  and \<open>finish_reason\<close> \<open>null\<close>) is emitted if and only if some line that the transcoder
  processes decodes, whether or not the decoded event carries a response fragment:
  then it is the first event of the output and the only role chunk; when no line
  decodes there is no role chunk. The first line that decodes triggers it: the output
  begins with the role chunk, followed at once by the content chunk of the event of that
  line if that event has a truthy \<open>response\<close>, both with the first identifier and the
  first clock reading, and what follows has no role chunk.
\<close>

theorem C4_role_chunk:
  assumes "transformedStream P mdl texts e = EventStream evs en"
  shows "((\<exists>l \<in> set (processed_lines e (concat texts)). decodes P l) \<longrightarrow>
            (\<exists>r rest. evs = r # rest \<and> role_chunk r \<and> \<not> list_ex role_chunk rest)) \<and>
         (\<not> (\<exists>l \<in> set (processed_lines e (concat texts)). decodes P l) \<longrightarrow> \<not> list_ex role_chunk evs) \<and>
         (processed_lines e (concat texts) = pre @ l # post \<and> (\<forall>x \<in> set pre. \<not> decodes P x) \<and>
          jsonStr_of l \<noteq> [] \<and> jsonStr_of l \<noteq> ''[DONE]'' \<and> JSON_parse P (jsonStr_of l) = Some d \<longrightarrow>
            (\<exists>rest. evs =
               Data \<lparr>chunk_id = ''chatcmpl-'' @ randomUUID P 0, chunk_object = ''chat.completion.chunk'',
                     created = now_seconds P 0, chunk_model = mdl,
                     choices = [\<lparr>index = 0, delta = RoleDelta ''assistant'', finish_reason = None\<rparr>]\<rparr> #
               (case get_prop d ''response'' of
                  Inr (Some v) \<Rightarrow>
                    if truthy v then
                      [Data \<lparr>chunk_id = ''chatcmpl-'' @ randomUUID P 0, chunk_object = ''chat.completion.chunk'',
                             created = now_seconds P 0, chunk_model = mdl,
                             choices = [\<lparr>index = 0, delta = ContentDelta v, finish_reason = None\<rparr>]\<rparr>]
                    else []
                | _ \<Rightarrow> []) @ rest \<and>
               \<not> list_ex role_chunk rest))"
proof -
  let ?ex = "\<exists>l \<in> set (processed_lines e (concat texts)). decodes P l"
  let ?fin = "foldl (processChunk P mdl) start_state (processed_lines e (concat texts))"
  have rf: "role_first ?fin"
    by (rule foldl_role_first) (simp add: role_first_def start_state_def)
  have sr: "sentRole ?fin = ?ex"
    using processed_lines_sentRole[where e = e and P = P and mdl = mdl and inp = "concat texts"]
    by (cases e) (simp_all add: processed_lines_def flushed_foldl splitLines_foldl)
  from transformedStream_processed_lines[OF assms] obtain tail where
    tail: "evs = enqueued ?fin @ tail" "\<not> list_ex role_chunk tail" by blast
  have 1: "?ex \<longrightarrow> (\<exists>r rest. evs = r # rest \<and> role_chunk r \<and> \<not> list_ex role_chunk rest)"
  proof
    assume ?ex
    then have "sentRole ?fin" using sr by simp
    then obtain r rest where e: "enqueued ?fin = r # rest" and r: "role_chunk r" "\<not> list_ex role_chunk rest"
      using rf unfolding role_first_def by auto
    have "evs = r # (rest @ tail)" unfolding tail(1) e by simp
    moreover have "\<not> list_ex role_chunk (rest @ tail)" using r(2) tail(2) by (auto simp: list_ex_iff)
    ultimately show "\<exists>r rest. evs = r # rest \<and> role_chunk r \<and> \<not> list_ex role_chunk rest"
      using r(1) by blast
  qed
  have 2: "\<not> ?ex \<longrightarrow> \<not> list_ex role_chunk evs"
  proof
    assume "\<not> ?ex"
    then have "\<not> sentRole ?fin" using sr by simp
    then have "enqueued ?fin = []" using rf unfolding role_first_def by simp
    then show "\<not> list_ex role_chunk evs" unfolding tail(1) using tail(2) by simp
  qed
  have 3: "processed_lines e (concat texts) = pre @ l # post \<and> (\<forall>x \<in> set pre. \<not> decodes P x) \<and>
          jsonStr_of l \<noteq> [] \<and> jsonStr_of l \<noteq> ''[DONE]'' \<and> JSON_parse P (jsonStr_of l) = Some d \<longrightarrow>
            (\<exists>rest. evs =
               Data \<lparr>chunk_id = ''chatcmpl-'' @ randomUUID P 0, chunk_object = ''chat.completion.chunk'',
                     created = now_seconds P 0, chunk_model = mdl,
                     choices = [\<lparr>index = 0, delta = RoleDelta ''assistant'', finish_reason = None\<rparr>]\<rparr> #
               (case get_prop d ''response'' of
                  Inr (Some v) \<Rightarrow>
                    if truthy v then
                      [Data \<lparr>chunk_id = ''chatcmpl-'' @ randomUUID P 0, chunk_object = ''chat.completion.chunk'',
                             created = now_seconds P 0, chunk_model = mdl,
                             choices = [\<lparr>index = 0, delta = ContentDelta v, finish_reason = None\<rparr>]\<rparr>]
                    else []
                | _ \<Rightarrow> []) @ rest \<and>
               \<not> list_ex role_chunk rest)"
    using first_decoded_line[OF assms, of pre l post d] by blast
  show ?thesis by (intro conjI, rule 1, rule 2, rule 3)
qed

lemma one_line:
  assumes "newline \<notin> set l" "l \<noteq> []"
  shows "transformedStream P mdl [l @ [newline]] None = finishStream P mdl (processChunk P mdl start_state l) []"
proof -
  have "splitLines P mdl start_state (l @ newline # []) = splitLines P mdl (processChunk P mdl start_state l) []"
    using splitLines_line[OF assms(1), of P mdl start_state "[]"] assms(2) by simp
  then have "splitLines P mdl start_state (concat [l @ [newline]]) = (processChunk P mdl start_state l, [])"
    by (simp add: splitLines_no_newline)
  then show ?thesis unfolding transformedStream_done by simp
qed

lemma stream_lines_line:
  "newline \<notin> set l \<Longrightarrow> stream_lines (l @ newline # t) = l # stream_lines t"
  by (subst stream_lines.simps) (simp add: indexOf_newline_def takeWhile_line)

text \<open>
  The upstream line \<open>data: null\<close> decodes, to \<open>null\<close>: the role chunk is the first event.
  After the line \<open>data: {"response":"Hi"}\<close> the output begins with the role chunk and the
  content chunk of \<open>Hi\<close>.
\<close>

theorem C4_role_chunk_witness:
  \<open>role_chunk (hd (events_of (transformedStream demo_platform (Some (JString ''llama'')) [''data: null'' @ [newline]] None))) \<and>
   (\<exists>rest. events_of (transformedStream demo_platform (Some (JString ''llama''))
                        [''data: {"response":"Hi"}'' @ [newline]] None) =
      Data \<lparr>chunk_id = ''chatcmpl-0'', chunk_object = ''chat.completion.chunk'',
            created = 1700000000, chunk_model = Some (JString ''llama''),
            choices = [\<lparr>index = 0, delta = RoleDelta ''assistant'', finish_reason = None\<rparr>]\<rparr> #
      Data \<lparr>chunk_id = ''chatcmpl-0'', chunk_object = ''chat.completion.chunk'',
            created = 1700000000, chunk_model = Some (JString ''llama''),
            choices = [\<lparr>index = 0, delta = ContentDelta (JString ''Hi''), finish_reason = None\<rparr>]\<rparr> #
      rest)\<close>
proof -
  let ?m = "Some (JString ''llama'')"
  have a: "role_chunk (hd (events_of (transformedStream demo_platform ?m [''data: null'' @ [newline]] None)))"
  proof -
    let ?texts = "[''data: null'' @ [newline]]"
    obtain evs en where out: "transformedStream demo_platform ?m ?texts None = EventStream evs en"
      using transformedStream_flushed[of demo_platform ?m ?texts] by blast
    have nl: "newline \<notin> set ''data: null''" by (simp add: newline_def)
    have "stream_lines (concat ?texts) = [''data: null'', []]"
      using stream_lines_line[OF nl, of "[]"] by (simp add: stream_lines_no_newline)
    moreover have "decodes demo_platform ''data: null''"
      by (simp add: decodes_def jsonStr_of_def startsWith_def demo_platform_def parse_event_def)
    ultimately have "\<exists>l \<in> set (processed_lines None (concat ?texts)). decodes demo_platform l"
      by (simp add: processed_lines_def)
    with C4_role_chunk[OF out] obtain r rest where "evs = r # rest" "role_chunk r" by blast
    with out show ?thesis by simp
  qed
  have b: \<open>\<exists>rest. events_of (transformedStream demo_platform ?m [''data: {"response":"Hi"}'' @ [newline]] None) =
      Data \<lparr>chunk_id = ''chatcmpl-0'', chunk_object = ''chat.completion.chunk'',
            created = 1700000000, chunk_model = ?m,
            choices = [\<lparr>index = 0, delta = RoleDelta ''assistant'', finish_reason = None\<rparr>]\<rparr> #
      Data \<lparr>chunk_id = ''chatcmpl-0'', chunk_object = ''chat.completion.chunk'',
            created = 1700000000, chunk_model = ?m,
            choices = [\<lparr>index = 0, delta = ContentDelta (JString ''Hi''), finish_reason = None\<rparr>]\<rparr> #
      rest\<close>
  proof -
    let ?l = \<open>''data: {"response":"Hi"}''\<close>
    let ?texts = "[?l @ [newline]]"
    obtain evs en where out: "transformedStream demo_platform ?m ?texts None = EventStream evs en"
      using transformedStream_flushed[of demo_platform ?m ?texts] by blast
    have nl: "newline \<notin> set ?l" by (simp add: newline_def)
    have ls: "processed_lines None (concat ?texts) = [] @ ?l # [[]]"
      using stream_lines_line[OF nl, of "[]"] by (simp add: stream_lines_no_newline processed_lines_def)
    have j: \<open>jsonStr_of ?l = ''{"response":"Hi"}''\<close> by (simp add: jsonStr_of_def startsWith_def)
    have p: "JSON_parse demo_platform (jsonStr_of ?l) = Some (JObject [(''response'', JString ''Hi'')])"
      unfolding j by (simp add: demo_platform_def parse_event_def)
    have j': "jsonStr_of ?l \<noteq> []" "jsonStr_of ?l \<noteq> ''[DONE]''" unfolding j by simp_all
    from C4_role_chunk[OF out, THEN conjunct2, THEN conjunct2,
        of "[]" ?l "[[]]" "JObject [(''response'', JString ''Hi'')]"] ls j' p
    obtain rest where "evs =
        Data \<lparr>chunk_id = ''chatcmpl-'' @ randomUUID demo_platform 0, chunk_object = ''chat.completion.chunk'',
              created = now_seconds demo_platform 0, chunk_model = ?m,
              choices = [\<lparr>index = 0, delta = RoleDelta ''assistant'', finish_reason = None\<rparr>]\<rparr> #
        Data \<lparr>chunk_id = ''chatcmpl-'' @ randomUUID demo_platform 0, chunk_object = ''chat.completion.chunk'',
              created = now_seconds demo_platform 0, chunk_model = ?m,
              choices = [\<lparr>index = 0, delta = ContentDelta (JString ''Hi''), finish_reason = None\<rparr>]\<rparr> #
        rest"
      by auto
    then show ?thesis using out by (simp add: demo_platform_def nat_toString_small)
  qed
  from a b show ?thesis by simp
qed

text \<open>
  Claim C4 as stated fails: the only upstream event \<open>{}\<close> carries no response fragment,
  and the output has the role chunk.
\<close>

theorem C4_counterexample:
  "parse_event ''{}'' = Some (JObject []) \<and> get_prop (JObject []) ''response'' = Inr None \<and>
   transformedStream demo_platform (Some (JString ''llama'')) [''data: {}'' @ [newline]] None =
     EventStream
       [Data \<lparr>chunk_id = ''chatcmpl-0'', chunk_object = ''chat.completion.chunk'',
              created = 1700000000, chunk_model = Some (JString ''llama''),
              choices = [\<lparr>index = 0, delta = RoleDelta ''assistant'', finish_reason = None\<rparr>]\<rparr>,
        Data \<lparr>chunk_id = ''chatcmpl-1'', chunk_object = ''chat.completion.chunk'',
              created = 1700000001, chunk_model = Some (JString ''llama''),
              choices = [\<lparr>index = 0, delta = EmptyDelta, finish_reason = Some ''stop''\<rparr>]\<rparr>,
        DoneSentinel]
       Closed"
proof -
  have nl: "newline \<notin> set ''data: {}''" by (simp add: newline_def)
  have j: "jsonStr_of ''data: {}'' = ''{}''" by (simp add: jsonStr_of_def startsWith_def)
  have p: "JSON_parse demo_platform (jsonStr_of ''data: {}'') = Some (JObject [])"
    unfolding j by (simp add: demo_platform_def parse_event_def)
  have s: "processChunk demo_platform (Some (JString ''llama'')) start_state ''data: {}'' =
      \<lparr>sentRole = True,
       enqueued = [Data (mk_chunk ''chatcmpl-0'' 1700000000 (Some (JString ''llama'')) (RoleDelta ''assistant'') None)],
       uuids = 1, clocks = 1\<rparr>"
    using processChunk_decoded[OF _ _ p, of "Some (JString ''llama'')" start_state]
    by (simp add: j start_state_def) (simp add: demo_platform_def nat_toString_small)
  show ?thesis
    using one_line[OF nl, of demo_platform "Some (JString ''llama'')"]
    by (simp add: s finishStream_def parse_event_def mk_chunk_def) (simp add: demo_platform_def nat_toString_small)
qed

lemma event_ids_append: "event_ids (xs @ ys) = event_ids xs @ event_ids ys"
  by (induction xs rule: event_ids.induct) auto

lemma event_ids_filter_subset: "set (event_ids (filter p evs)) \<subseteq> set (event_ids evs)"
  by (induction evs rule: event_ids.induct) auto

lemma processChunk_fresh_ids:
  assumes inj: "inj (randomUUID P)" and f: "fresh_ids P st"
  shows "fresh_ids P (processChunk P mdl st l)"
proof (cases "decodes P l")
  case False
  then show ?thesis using f by (simp add: processChunk_skipped)
next
  case True
  then obtain d where d: "jsonStr_of l \<noteq> []" "jsonStr_of l \<noteq> ''[DONE]''" "JSON_parse P (jsonStr_of l) = Some d"
    by (auto simp: decodes_def)
  let ?i = "''chatcmpl-'' @ randomUUID P (uuids st)"
  have old: "\<forall>i \<in> set (event_ids (enqueued st)). \<exists>k < uuids st. i = ''chatcmpl-'' @ randomUUID P k"
    and dist: "distinct (event_ids (filter (\<lambda>ev. \<not> role_chunk ev) (enqueued st)))"
    using f by (simp_all add: fresh_ids_def)
  have new: "?i \<notin> set (event_ids (enqueued st))"
  proof
    assume "?i \<in> set (event_ids (enqueued st))"
    with old obtain k where "k < uuids st" "?i = ''chatcmpl-'' @ randomUUID P k" by blast
    then show False using inj by (auto dest: injD)
  qed
  then have new': "?i \<notin> set (event_ids (filter (\<lambda>ev. \<not> role_chunk ev) (enqueued st)))"
    using event_ids_filter_subset by blast
  have lt: "\<forall>i \<in> set (event_ids (enqueued st)). \<exists>k < Suc (uuids st). i = ''chatcmpl-'' @ randomUUID P k"
    using old less_Suc_eq by blast
  show ?thesis
    unfolding processChunk_decoded[OF d] fresh_ids_def
    using lt dist new'
    by (auto simp: event_ids_append mk_chunk_def split: sum.splits option.splits)
qed

lemma processChunk_one_id:
  "\<forall>i \<in> set (event_ids (drop (length (enqueued st)) (enqueued (processChunk P mdl st l)))).
     i = ''chatcmpl-'' @ randomUUID P (uuids st)"
proof (cases "decodes P l")
  case False
  then show ?thesis by (simp add: processChunk_skipped)
next
  case True
  then obtain d where d: "jsonStr_of l \<noteq> []" "jsonStr_of l \<noteq> ''[DONE]''" "JSON_parse P (jsonStr_of l) = Some d"
    by (auto simp: decodes_def)
  show ?thesis
    unfolding processChunk_decoded[OF d]
    by (auto simp: mk_chunk_def split: sum.splits option.splits)
qed

text \<open>
  Claim C9, as amended. Every decoded upstream line draws one identifier, and so does
  the end of the stream. When the generator never returns the same identifier twice,
  the chunks other than the role chunk have pairwise different ids; the chunks that
  one upstream line produces, a role chunk and a content chunk at most, carry the one
  identifier drawn for that line.
\<close>

theorem C9_identifiers:
  assumes inj: "inj (randomUUID P)"
    and out: "transformedStream P mdl texts e = EventStream evs en"
  shows "distinct (event_ids (filter (\<lambda>ev. \<not> role_chunk ev) evs)) \<and>
         (\<forall>i \<in> set (event_ids (drop (length (enqueued st)) (enqueued (processChunk P mdl st l)))).
            i = ''chatcmpl-'' @ randomUUID P (uuids st))"
proof -
  let ?f = "flushed P mdl (concat texts)" and ?g = "fst (splitLines P mdl start_state (concat texts))"
  have init: "fresh_ids P start_state" by (simp add: fresh_ids_def start_state_def)
  have step: "\<And>st l. fresh_ids P st \<Longrightarrow> fresh_ids P (processChunk P mdl st l)"
    using processChunk_fresh_ids[OF inj] by blast
  have ff: "fresh_ids P ?f" and fg: "fresh_ids P ?g"
    using flushed_invariant[of "fresh_ids P" P mdl "concat texts", OF step init] by simp_all
  have "distinct (event_ids (filter (\<lambda>ev. \<not> role_chunk ev) evs))"
  proof (cases e)
    case None
    let ?i = "''chatcmpl-'' @ randomUUID P (uuids ?f)"
    have evs: "evs = enqueued ?f @
        [Data (mk_chunk ?i (now_seconds P (clocks ?f)) mdl EmptyDelta (Some ''stop'')), DoneSentinel]"
      using out unfolding None transformedStream_flushed by simp
    have "?i \<notin> set (event_ids (enqueued ?f))"
    proof
      assume "?i \<in> set (event_ids (enqueued ?f))"
      with ff obtain k where "k < uuids ?f" "?i = ''chatcmpl-'' @ randomUUID P k"
        unfolding fresh_ids_def by blast
      then show False using inj by (auto dest: injD)
    qed
    then have "?i \<notin> set (event_ids (filter (\<lambda>ev. \<not> role_chunk ev) (enqueued ?f)))"
      using event_ids_filter_subset by blast
    then show ?thesis
      unfolding evs using ff by (simp add: fresh_ids_def event_ids_append mk_chunk_def)
  next
    case (Some err)
    have "evs = enqueued ?g" using out unfolding Some transformedStream_failed by simp
    then show ?thesis using fg by (simp add: fresh_ids_def)
  qed
  then show ?thesis using processChunk_one_id by blast
qed

lemma digit_char_inj: "a < 10 \<Longrightarrow> b < 10 \<Longrightarrow> digit_char a = digit_char b \<Longrightarrow> a = b"
proof -
  assume a: "a < 10" and b: "b < 10" and e: "digit_char a = digit_char b"
  have d: "distinct ''0123456789''" by simp
  have "length ''0123456789'' = 10" by simp
  with a b e d show ?thesis
    unfolding digit_char_def by (metis nth_eq_iff_index_eq)
qed

lemma nat_toString_not_Nil: "nat_toString n \<noteq> []"
  by (subst nat_toString.simps) simp

lemma nat_toString_inj: "nat_toString n = nat_toString m \<Longrightarrow> n = m"
proof (induction n arbitrary: m rule: nat_toString.induct)
  case (1 n)
  show ?case
  proof (cases "n < 10")
    case True
    then have n: "nat_toString n = [digit_char n]" by (subst nat_toString.simps) simp
    show ?thesis
    proof (cases "m < 10")
      case m: True
      then have "nat_toString m = [digit_char m]" by (subst nat_toString.simps) simp
      with n "1.prems" True m show ?thesis by (simp add: digit_char_inj)
    next
      case m: False
      then have "nat_toString m = nat_toString (m div 10) @ [digit_char (m mod 10)]"
        by (subst nat_toString.simps) simp
      with n "1.prems" nat_toString_not_Nil[of "m div 10"] show ?thesis by simp
    qed
  next
    case False
    then have n: "nat_toString n = nat_toString (n div 10) @ [digit_char (n mod 10)]"
      by (subst nat_toString.simps) simp
    show ?thesis
    proof (cases "m < 10")
      case m: True
      then have "nat_toString m = [digit_char m]" by (subst nat_toString.simps) simp
      with n "1.prems" nat_toString_not_Nil[of "n div 10"] show ?thesis by simp
    next
      case m: False
      then have "nat_toString m = nat_toString (m div 10) @ [digit_char (m mod 10)]"
        by (subst nat_toString.simps) simp
      with n "1.prems" have e: "nat_toString (n div 10) = nat_toString (m div 10)"
        and d: "digit_char (n mod 10) = digit_char (m mod 10)" by simp_all
      from "1.IH"[OF False e] have "n div 10 = m div 10" .
      moreover from d have "n mod 10 = m mod 10" by (simp add: digit_char_inj)
      ultimately show ?thesis by (metis div_mult_mod_eq)
    qed
  qed
qed

text \<open>The decimal numerals are different identifiers; two lines on the demo platform.\<close>

theorem C9_identifiers_witness:
  \<open>distinct (event_ids (filter (\<lambda>ev. \<not> role_chunk ev)
     (events_of (transformedStream demo_platform (Some (JString ''llama''))
        [''data: {"response":"Hi"}'' @ [newline], ''data: {"response":" there"}''] None))))\<close>
proof -
  let ?texts = \<open>[''data: {"response":"Hi"}'' @ [newline], ''data: {"response":" there"}'']\<close>
  have inj: "inj (randomUUID demo_platform)"
    by (auto simp: demo_platform_def inj_on_def dest: nat_toString_inj)
  obtain evs en where out: "transformedStream demo_platform (Some (JString ''llama'')) ?texts None = EventStream evs en"
    using transformedStream_flushed[of demo_platform "Some (JString ''llama'')" ?texts] by blast
  from C9_identifiers[OF inj out] show ?thesis unfolding out by simp
qed

text \<open>
  Claim C9 as stated fails: the role chunk and the content chunk that the line
  \<open>data: {"response":"Hi"}\<close> produces are two chunks with the same id.
\<close>

theorem C9_counterexample:
  \<open>transformedStream demo_platform (Some (JString ''llama'')) [''data: {"response":"Hi"}'' @ [newline]] None =
     EventStream
       [Data (mk_chunk ''chatcmpl-0'' 1700000000 (Some (JString ''llama'')) (RoleDelta ''assistant'') None),
        Data (mk_chunk ''chatcmpl-0'' 1700000000 (Some (JString ''llama'')) (ContentDelta (JString ''Hi'')) None),
        Data (mk_chunk ''chatcmpl-1'' 1700000001 (Some (JString ''llama'')) EmptyDelta (Some ''stop'')),
        DoneSentinel]
       Closed \<and>
   \<not> distinct (event_ids (events_of
        (transformedStream demo_platform (Some (JString ''llama'')) [''data: {"response":"Hi"}'' @ [newline]] None)))\<close>
proof -
  let ?l = \<open>''data: {"response":"Hi"}''\<close>
  have nl: "newline \<notin> set ?l" by (simp add: newline_def)
  have j: \<open>jsonStr_of ?l = ''{"response":"Hi"}''\<close> by (simp add: jsonStr_of_def startsWith_def)
  have p: "JSON_parse demo_platform (jsonStr_of ?l) = Some (JObject [(''response'', JString ''Hi'')])"
    unfolding j by (simp add: demo_platform_def parse_event_def)
  have s: "processChunk demo_platform (Some (JString ''llama'')) start_state ?l =
      \<lparr>sentRole = True,
       enqueued = [Data (mk_chunk ''chatcmpl-0'' 1700000000 (Some (JString ''llama'')) (RoleDelta ''assistant'') None),
                   Data (mk_chunk ''chatcmpl-0'' 1700000000 (Some (JString ''llama'')) (ContentDelta (JString ''Hi'')) None)],
       uuids = 1, clocks = 1\<rparr>"
    using processChunk_decoded[OF _ _ p, of "Some (JString ''llama'')" start_state]
    by (simp add: j start_state_def) (simp add: demo_platform_def nat_toString_small)
  have out: "transformedStream demo_platform (Some (JString ''llama'')) [?l @ [newline]] None =
     EventStream
       [Data (mk_chunk ''chatcmpl-0'' 1700000000 (Some (JString ''llama'')) (RoleDelta ''assistant'') None),
        Data (mk_chunk ''chatcmpl-0'' 1700000000 (Some (JString ''llama'')) (ContentDelta (JString ''Hi'')) None),
        Data (mk_chunk ''chatcmpl-1'' 1700000001 (Some (JString ''llama'')) EmptyDelta (Some ''stop'')),
        DoneSentinel]
       Closed"
    using one_line[OF nl, of demo_platform "Some (JString ''llama'')"]
    by (simp add: s finishStream_def) (simp add: demo_platform_def nat_toString_small)
  show ?thesis unfolding out by (simp add: mk_chunk_def)
qed

section \<open>Token accounting\<close>

lemma calculateTokens_string:
  "calculateTokens P (Some (JString s)) = Inr (Some \<lceil>real (length s) / 4\<rceil>)"
  by (simp add: calculateTokens_def bind_err_def)

lemma calculateTokens_string_div:
  "calculateTokens P (Some (JString s)) = Inr (Some (int ((length s + 3) div 4)))"
proof -
  have "\<lceil>real (length s) / 4\<rceil> = int ((length s + 3) div 4)" by linarith
  then show ?thesis by (simp add: calculateTokens_string)
qed

lemma reduceTokens_strings:
  "map (\<lambda>x. get_prop x ''content'') xs = map (\<lambda>s. Inr (Some (JString s))) ss \<Longrightarrow>
   reduceTokens P (Some a) xs = Inr (Some (a + (\<Sum>s\<leftarrow>ss. \<lceil>real (length s) / 4\<rceil>)))"
proof (induction xs arbitrary: ss a)
  case Nil
  then show ?case by simp
next
  case (Cons x xs)
  then obtain s ss' where ss: "ss = s # ss'" by (cases ss) auto
  with Cons.prems have x: "get_prop x ''content'' = Inr (Some (JString s))"
    and rest: "map (\<lambda>x. get_prop x ''content'') xs = map (\<lambda>s. Inr (Some (JString s))) ss'"
    by simp_all
  show ?case
    using Cons.IH[OF rest, of "a + \<lceil>real (length s) / 4\<rceil>"] x
    by (simp add: ss bind_err_def calculateTokens_string add.assoc)
qed

lemma sum_ceil_dvd:
  "\<forall>s \<in> set ss. 4 dvd length s \<Longrightarrow>
   (\<Sum>s\<leftarrow>ss. \<lceil>real (length s) / 4\<rceil>) = \<lceil>real (\<Sum>s\<leftarrow>ss. length s) / 4\<rceil>"
proof (induction ss)
  case Nil
  then show ?case by simp
next
  case (Cons x xs)
  then obtain k where k: "length x = 4 * k" by auto
  have "\<lceil>real (4 * k + n) / 4\<rceil> = int k + \<lceil>real n / 4\<rceil>" for n
  proof -
    have "real (4 * k + n) / 4 = of_int (int k) + real n / 4" by simp
    then show ?thesis by (metis ceiling_add_of_int add.commute)
  qed
  with Cons k show ?case by simp
qed

lemma server_error_body: "body (server_error e) \<noteq> CompletionBody c"
  by (simp add: server_error_def secured_def)

lemma completion_body_cases:
  assumes "body (createChatCompletion P ms ai_run b info) = CompletionBody c"
  shows "\<exists>msgs pt ct. get_prop b ''messages'' = Inr msgs \<and> promptTokens_of P msgs = Inr pt \<and>
           calculateTokens P (Some (message_content c)) = Inr ct \<and>
           completion_usage c = \<lparr>prompt_tokens = pt, completion_tokens = ct, total_tokens = add_num pt ct\<rparr>"
proof (cases "chatCompletionTry P ms ai_run b info")
  case (Inl e)
  with assms show ?thesis by (simp add: createChatCompletion_def server_error_body)
next
  case (Inr r)
  with assms have r: "body r = CompletionBody c" by (simp add: createChatCompletion_def)
  from Inr r show ?thesis
    unfolding chatCompletionTry_def bind_err_def
    by (auto simp: secured_def transformedStream_not_completion
             dest: validateRequestBody_ErrorBody
             split: sum.splits option.splits if_splits generated.splits)
qed

text \<open>
  The controller does answer with a completion, of status 200, when the body passes the
  validator, \<open>stream\<close> is falsy, the message contents are strings and the engine
  returns a text.
\<close>

lemma completion_returned:
  assumes "validateRequestBody b = Inr None"
    and "get_prop b ''stream'' = Inr strm" "\<not> truthy_opt strm"
    and "get_prop b ''messages'' = Inr (Some (JArray xs))"
    and "get_prop b ''model'' = Inr mdl" "get_prop b ''temperature'' = Inr temp"
    and "get_prop b ''max_tokens'' = Inr maxtok"
    and "map (\<lambda>x. get_prop x ''content'') xs = map (\<lambda>s. Inr (Some (JString s))) ss"
    and "generateChatCompletion P ms ai_run (Some (JArray xs)) mdl temp maxtok False =
           Inr (Completed (JString out) fr)"
  shows "status (createChatCompletion P ms ai_run b info) = 200 \<and>
         (\<exists>c. body (createChatCompletion P ms ai_run b info) = CompletionBody c \<and>
              message_content c = JString out)"
  using assms reduceTokens_strings[OF assms(8), of P 0]
  by (simp add: createChatCompletion_def chatCompletionTry_def bind_err_def secured_def
      calculateTokens_string)

text \<open>
  Claim C6, as amended. Whenever the controller answers with a completion for a request
  whose message contents are strings, and the output text is a string, the usage has
  \<open>prompt_tokens\<close> the sum over the messages of \<open>ceil(length(content) / 4)\<close>,
  \<open>completion_tokens = ceil(length(output) / 4)\<close> and \<open>total_tokens\<close> their sum. The
  ceiling is taken message by message: \<open>prompt_tokens\<close> is \<open>ceil(total length / 4)\<close> when
  the length of every message is a multiple of 4, as for one message of 40 characters.
\<close>

theorem C6_usage:
  assumes "body (createChatCompletion P ms ai_run b info) = CompletionBody c"
    and "get_prop b ''messages'' = Inr (Some (JArray xs))"
    and "map (\<lambda>x. get_prop x ''content'') xs = map (\<lambda>s. Inr (Some (JString s))) ss"
    and "message_content c = JString out"
  shows "prompt_tokens (completion_usage c) = Some (\<Sum>s\<leftarrow>ss. \<lceil>real (length s) / 4\<rceil>) \<and>
         completion_tokens (completion_usage c) = Some \<lceil>real (length out) / 4\<rceil> \<and>
         total_tokens (completion_usage c) =
           Some ((\<Sum>s\<leftarrow>ss. \<lceil>real (length s) / 4\<rceil>) + \<lceil>real (length out) / 4\<rceil>) \<and>
         ((\<forall>s \<in> set ss. 4 dvd length s) \<longrightarrow>
            prompt_tokens (completion_usage c) = Some \<lceil>real (\<Sum>s\<leftarrow>ss. length s) / 4\<rceil>)"
proof -
  from completion_body_cases[OF assms(1)] assms(2)
  obtain pt ct where pt: "promptTokens_of P (Some (JArray xs)) = Inr pt"
    and ct: "calculateTokens P (Some (message_content c)) = Inr ct"
    and u: "completion_usage c = \<lparr>prompt_tokens = pt, completion_tokens = ct, total_tokens = add_num pt ct\<rparr>"
    by auto
  have "pt = Some (\<Sum>s\<leftarrow>ss. \<lceil>real (length s) / 4\<rceil>)"
    using pt reduceTokens_strings[OF assms(3), of P 0] by simp
  moreover have "ct = Some \<lceil>real (length out) / 4\<rceil>"
    using ct assms(4) by (simp add: calculateTokens_string)
  ultimately show ?thesis using u sum_ceil_dvd[of ss] by simp
qed

text \<open>
  A content that is not a string is outside that statement: the validator lets the
  content \<open>5\<close> through, and \<open>prompt_tokens\<close> and \<open>total_tokens\<close> are then \<open>NaN\<close>.
\<close>

lemma number_content_usage:
  "usage_of (createChatCompletion demo_platform demo_models demo_run request_number_content None)
     = Some \<lparr>prompt_tokens = None, completion_tokens = Some 20, total_tokens = None\<rparr>"
  by (simp add: usage_of_def createChatCompletion_def chatCompletionTry_def bind_err_def
      request_number_content_def message_def demo_models_def demo_run_def validateRequestBody_def
      validateOptions_def generateChatCompletion_def or_default_def secured_def calculateTokens_def Let_def)

text \<open>
  Claim C6 as stated fails: two prompt messages of 1 and 39 characters total 40
  characters, and with a completion of 80 characters the usage is 11, 20 and 31.
\<close>

theorem C6_counterexample:
  "get_prop request_two_messages ''messages'' =
     Inr (Some (JArray [message ''system'' (JString ''a''), message ''user'' (JString (replicate 39 CHR ''b''))])) \<and>
   length ''a'' + length (replicate 39 CHR ''b'') = 40 \<and>
   usage_of (createChatCompletion demo_platform demo_models demo_run request_two_messages None)
     = Some \<lparr>prompt_tokens = Some 11, completion_tokens = Some 20, total_tokens = Some 31\<rparr>"
  by (simp add: usage_of_def createChatCompletion_def chatCompletionTry_def bind_err_def
      request_two_messages_def message_def demo_models_def demo_run_def validateRequestBody_def
      validateOptions_def generateChatCompletion_def or_default_def secured_def calculateTokens_string_div Let_def)

text \<open>
  One prompt message of 40 characters and a completion of 80 characters: 10, 20 and 30.
\<close>

theorem C6_usage_witness:
  "usage_of (createChatCompletion demo_platform demo_models demo_run request_one_message None)
     = Some \<lparr>prompt_tokens = Some 10, completion_tokens = Some 20, total_tokens = Some 30\<rparr>"
proof -
  let ?r = "createChatCompletion demo_platform demo_models demo_run request_one_message None"
  have "\<exists>c. body ?r = CompletionBody c \<and> message_content c = JString (replicate 80 CHR ''x'')"
    by (simp add: createChatCompletion_def chatCompletionTry_def bind_err_def
      request_one_message_def message_def demo_models_def demo_run_def validateRequestBody_def
      validateOptions_def generateChatCompletion_def or_default_def secured_def calculateTokens_def Let_def)
  then obtain c where c: "body ?r = CompletionBody c"
    and mc: "message_content c = JString (replicate 80 CHR ''x'')" by blast
  have m: "get_prop request_one_message ''messages'' =
             Inr (Some (JArray [message ''user'' (JString (replicate 40 CHR ''a''))]))"
    by (simp add: request_one_message_def)
  have s: "map (\<lambda>x. get_prop x ''content'') [message ''user'' (JString (replicate 40 CHR ''a''))]
         = map (\<lambda>s. Inr (Some (JString s))) [replicate 40 CHR ''a'']"
    by (simp add: message_def)
  from C6_usage[OF c m s mc]
  have "prompt_tokens (completion_usage c) = Some 10 \<and> completion_tokens (completion_usage c) = Some 20 \<and>
        total_tokens (completion_usage c) = Some 30"
    by simp
  then have "completion_usage c = \<lparr>prompt_tokens = Some 10, completion_tokens = Some 20, total_tokens = Some 30\<rparr>"
    by (cases "completion_usage c") simp
  with c show ?thesis by (simp add: usage_of_def)
qed


section \<open>Failures of the completion engine\<close>










end
